theory Spec2Isabelle
  imports Main "HOL-Library.Sublist" "HOL-Library.Multiset"
begin

section \<open>Data model (src/types.ts)\<close>

text \<open>
  Strings are \<open>string\<close>; an optional property \<open>f?: T\<close> is a \<open>T option\<close>, with
  \<open>None\<close> for \<open>undefined\<close>. The fields of the three raw shapes carry the prefix of
  their shape, since a post, a profile, a product and the canonical item share property names.
\<close>

datatype ItemType = post | profile | product

record ActivityItem =
  type :: ItemType
  title :: string
  slug :: string
  excerpt :: string
  date :: string
  image :: "string option"
  author :: "string option"
  category :: "string option"
  tags :: "string list option"
  productCategory :: "string option"
  profileRole :: "string option"
  license :: "string option"

text \<open>
  \<open>published\<close> and \<open>draft\<close> are declared \<open>boolean\<close>, but the normalizer tests them with
  \<open>===\<close>, which tells the booleans from every other value a loader may hand over at run
  time. These two fields are therefore modelled as run-time values.
\<close>

datatype jsval = JUndefined | JNull | JBool bool | JNum int | JStr string

text \<open>The union \<open>string | { name: string }\<close> of a post's author.\<close>

datatype PostAuthor = AuthorString string | AuthorObject string

record BlogPostItem =
  post_title :: string
  post_slug :: string
  post_excerpt :: "string option"
  post_description :: "string option"
  post_date :: "string option"
  post_publishedAt :: "string option"
  post_featuredImage :: "string option"
  post_coverImage :: "string option"
  post_heroImage :: "string option"
  post_author :: "PostAuthor option"
  post_category :: "string option"
  post_categories :: "string list option"
  post_tags :: "string list option"
  post_published :: jsval
  post_draft :: jsval

record ProfileItem =
  profile_name :: "string option"
  profile_displayName :: "string option"
  profile_slug :: string
  profile_bio :: "string option"
  profile_publishedAt :: "string option"
  profile_updatedAt :: "string option"
  profile_joinedDate :: "string option"
  profile_avatar :: "string option"
  profile_imageUrl :: "string option"
  profile_role :: "string option"
  profile_tags :: "string list option"
  profile_interests :: "string list option"

record ProductItem =
  product_name :: string
  product_slug :: string
  product_excerpt :: "string option"
  product_description :: "string option"
  product_publishedAt :: "string option"
  product_updatedAt :: "string option"
  product_image :: "string option"
  product_category :: "string option"
  product_tags :: "string list option"
  product_license :: "string option"

section \<open>The JavaScript operators the normalizers use\<close>

text \<open>A string is truthy when it is defined and not empty.\<close>

fun truthy :: "string option \<Rightarrow> bool" where
  "truthy None = False"
| "truthy (Some s) = (s \<noteq> [])"

text \<open>\<open>a || b\<close> on two optional strings: \<open>a\<close> when it is truthy, else \<open>b\<close> as it is.\<close>

definition or_js :: "string option \<Rightarrow> string option \<Rightarrow> string option" where
  "or_js a b = (if truthy a then a else b)"

text \<open>\<open>a || d\<close> where \<open>d\<close> is a string: the result is a string.\<close>

fun or_str :: "string option \<Rightarrow> string \<Rightarrow> string" where
  "or_str None d = d"
| "or_str (Some s) d = (if s \<noteq> [] then s else d)"

text \<open>\<open>a || []\<close> on an optional array: every array is truthy, the empty one too.\<close>

fun or_list :: "'a list option \<Rightarrow> 'a list \<Rightarrow> 'a list" where
  "or_list None d = d"
| "or_list (Some xs) d = xs"

text \<open>\<open>xs?.[0]\<close>: \<open>undefined\<close> when the array is missing or empty.\<close>

fun first_elem :: "string list option \<Rightarrow> string option" where
  "first_elem None = None"
| "first_elem (Some []) = None"
| "first_elem (Some (x # xs)) = Some x"

section \<open>Normalizers (src/feed.ts)\<close>

text \<open>
  Each normalizer takes \<open>now\<close>, the string that \<open>new Date().toISOString()\<close> returns at the
  moment of the call; it is used only when the raw item carries no date.
\<close>

definition blogPostToActivity :: "string \<Rightarrow> BlogPostItem \<Rightarrow> ActivityItem option" where
  "blogPostToActivity now p =
     (if post_published p = JBool False \<or> post_draft p = JBool True then None
      else
        let date = or_str (or_js (post_date p) (post_publishedAt p)) now;
            author = (case post_author p of
                        Some (AuthorObject name) \<Rightarrow> Some name
                      | Some (AuthorString s) \<Rightarrow> Some (if s \<noteq> [] then s else ''Unknown'')
                      | None \<Rightarrow> Some ''Unknown'')
        in Some \<lparr> type = post,
                  title = (if post_title p \<noteq> [] then post_title p else post_slug p),
                  slug = post_slug p,
                  excerpt = or_str (or_js (post_excerpt p) (post_description p)) [],
                  date = date,
                  image = or_js (or_js (post_featuredImage p) (post_coverImage p)) (post_heroImage p),
                  author = author,
                  category = or_js (first_elem (post_categories p)) (post_category p),
                  tags = Some (or_list (post_tags p) []),
                  productCategory = None,
                  profileRole = None,
                  license = None \<rparr>)"

definition profileToActivity :: "string \<Rightarrow> ProfileItem \<Rightarrow> ActivityItem" where
  "profileToActivity now p =
     (let date = or_str (or_js (or_js (profile_publishedAt p) (profile_updatedAt p))
                               (profile_joinedDate p)) now;
          name = or_str (or_js (profile_name p) (profile_displayName p)) ''Community Member''
      in \<lparr> type = profile,
           title = name,
           slug = profile_slug p,
           excerpt = or_str (profile_bio p) [],
           date = date,
           image = or_js (profile_avatar p) (profile_imageUrl p),
           author = Some name,
           category = Some ''profile'',
           tags = Some (or_list (profile_tags p) (or_list (profile_interests p) [])),
           productCategory = None,
           profileRole = profile_role p,
           license = None \<rparr>)"

definition productToActivity :: "string \<Rightarrow> ProductItem \<Rightarrow> ActivityItem" where
  "productToActivity now p =
     (let date = or_str (or_js (product_publishedAt p) (product_updatedAt p)) now
      in \<lparr> type = product,
           title = product_name p,
           slug = product_slug p,
           excerpt = or_str (or_js (product_excerpt p) (product_description p)) [],
           date = date,
           image = product_image p,
           author = None,
           category = Some ''product'',
           tags = Some (or_list (product_tags p) []),
           productCategory = product_category p,
           profileRole = None,
           license = product_license p \<rparr>)"

section \<open>The host environment\<close>

text \<open>
  Two things come from the JavaScript runtime and not from this repository. \<open>clock e k\<close> is
  the string \<open>new Date().toISOString()\<close> returns during the \<open>k\<close>-th normalizer call of one
  query (the clock may advance while the query runs). \<open>getTime e s\<close> is
  \<open>new Date(s).getTime()\<close>: the milliseconds since the epoch, or \<open>None\<close> for \<open>NaN\<close> when
  \<open>s\<close> does not parse as a date.
\<close>

record env =
  clock :: "nat \<Rightarrow> string"
  getTime :: "string \<Rightarrow> int option"

section \<open>Configuration store (src/config.ts)\<close>

text \<open>A loader is a zero-argument function that returns an array or throws.\<close>

datatype 'a outcome = Throws | Returns "'a list"

type_synonym 'a loader = "unit \<Rightarrow> 'a outcome"

text \<open>
  A property of a JavaScript object: the key is absent, or it is present and holds
  \<open>undefined\<close>, or it is present and holds a value.
\<close>

datatype 'a property = Absent | Undefined | Value "'a"

record ActivityFeedConfig =
  loadBlogPosts :: "BlogPostItem loader property"
  loadProfiles :: "ProfileItem loader property"
  loadProducts :: "ProductItem loader property"

text \<open>Reading \<open>obj.key\<close>: \<open>undefined\<close> unless the key holds a value.\<close>

fun prop_get :: "'a property \<Rightarrow> 'a option" where
  "prop_get Absent = None"
| "prop_get Undefined = None"
| "prop_get (Value v) = Some v"

text \<open>
  One key of the object spread \<open>{ ...old, ...new }\<close>: every own key of \<open>new\<close> wins, also
  one that holds \<open>undefined\<close>.
\<close>

fun spread :: "'a property \<Rightarrow> 'a property \<Rightarrow> 'a property" where
  "spread old Absent = old"
| "spread old new = new"

text \<open>The module variable \<open>_config\<close> is the state; it starts as \<open>{}\<close>.\<close>

definition empty_config :: ActivityFeedConfig where
  "empty_config = \<lparr> loadBlogPosts = Absent, loadProfiles = Absent, loadProducts = Absent \<rparr>"

definition configure :: "ActivityFeedConfig \<Rightarrow> ActivityFeedConfig \<Rightarrow> ActivityFeedConfig" where
  "configure config st =
     \<lparr> loadBlogPosts = spread (loadBlogPosts st) (loadBlogPosts config),
       loadProfiles = spread (loadProfiles st) (loadProfiles config),
       loadProducts = spread (loadProducts st) (loadProducts config) \<rparr>"

definition getConfig :: "ActivityFeedConfig \<Rightarrow> ActivityFeedConfig" where
  "getConfig st =
     \<lparr> loadBlogPosts = spread Absent (loadBlogPosts st),
       loadProfiles = spread Absent (loadProfiles st),
       loadProducts = spread Absent (loadProducts st) \<rparr>"

definition resetConfig :: "ActivityFeedConfig \<Rightarrow> ActivityFeedConfig" where
  "resetConfig st = empty_config"

section \<open>Aggregator (src/feed.ts, loadAllActivity)\<close>

text \<open>
  The three \<open>for\<close> loops. The loop state is the array built so far and the number of
  normalizer calls made so far, which selects the clock reading of the next call.
\<close>

fun pushPosts :: "env \<Rightarrow> BlogPostItem list \<Rightarrow> ActivityItem list \<times> nat \<Rightarrow> ActivityItem list \<times> nat" where
  "pushPosts e [] s = s"
| "pushPosts e (p # posts) (activities, k) =
     (case blogPostToActivity (clock e k) p of
        None \<Rightarrow> pushPosts e posts (activities, Suc k)
      | Some item \<Rightarrow> pushPosts e posts (activities @ [item], Suc k))"

fun pushProfiles :: "env \<Rightarrow> ProfileItem list \<Rightarrow> ActivityItem list \<times> nat \<Rightarrow> ActivityItem list \<times> nat" where
  "pushProfiles e [] s = s"
| "pushProfiles e (p # profiles) (activities, k) =
     pushProfiles e profiles (activities @ [profileToActivity (clock e k) p], Suc k)"

fun pushProducts :: "env \<Rightarrow> ProductItem list \<Rightarrow> ActivityItem list \<times> nat \<Rightarrow> ActivityItem list \<times> nat" where
  "pushProducts e [] s = s"
| "pushProducts e (p # products) (activities, k) =
     pushProducts e products (activities @ [productToActivity (clock e k) p], Suc k)"

text \<open>
  Which loaders a query invoked, in order: the second component of every result below.
\<close>

datatype LoaderName = LoadBlogPosts | LoadProfiles | LoadProducts

text \<open>
  The three guarded \<open>try { ... } catch { }\<close> blocks. A loader that throws leaves the array
  as it was; the normalizers cannot throw on items of the declared types.
\<close>

definition postsBlock ::
  "env \<Rightarrow> ActivityFeedConfig \<Rightarrow> (ActivityItem list \<times> nat) \<times> LoaderName list
     \<Rightarrow> (ActivityItem list \<times> nat) \<times> LoaderName list" where
  "postsBlock e config = (\<lambda>(s, calls).
     case prop_get (loadBlogPosts config) of
       None \<Rightarrow> (s, calls)
     | Some f \<Rightarrow> (case f () of
                   Throws \<Rightarrow> (s, calls @ [LoadBlogPosts])
                 | Returns posts \<Rightarrow> (pushPosts e posts s, calls @ [LoadBlogPosts])))"

definition profilesBlock ::
  "env \<Rightarrow> ActivityFeedConfig \<Rightarrow> (ActivityItem list \<times> nat) \<times> LoaderName list
     \<Rightarrow> (ActivityItem list \<times> nat) \<times> LoaderName list" where
  "profilesBlock e config = (\<lambda>(s, calls).
     case prop_get (loadProfiles config) of
       None \<Rightarrow> (s, calls)
     | Some f \<Rightarrow> (case f () of
                   Throws \<Rightarrow> (s, calls @ [LoadProfiles])
                 | Returns profiles \<Rightarrow> (pushProfiles e profiles s, calls @ [LoadProfiles])))"

definition productsBlock ::
  "env \<Rightarrow> ActivityFeedConfig \<Rightarrow> (ActivityItem list \<times> nat) \<times> LoaderName list
     \<Rightarrow> (ActivityItem list \<times> nat) \<times> LoaderName list" where
  "productsBlock e config = (\<lambda>(s, calls).
     case prop_get (loadProducts config) of
       None \<Rightarrow> (s, calls)
     | Some f \<Rightarrow> (case f () of
                   Throws \<Rightarrow> (s, calls @ [LoadProducts])
                 | Returns products \<Rightarrow> (pushProducts e products s, calls @ [LoadProducts])))"

text \<open>
  The comparator of \<open>activities.sort\<close>: \<open>dateB - dateA\<close>. When a date does not parse the
  difference is \<open>NaN\<close>, which \<open>Array.prototype.sort\<close> reads as \<open>+0\<close>.
\<close>

definition compareDates :: "env \<Rightarrow> ActivityItem \<Rightarrow> ActivityItem \<Rightarrow> int" where
  "compareDates e a b =
     (case (getTime e (date a), getTime e (date b)) of
        (Some dateA, Some dateB) \<Rightarrow> dateB - dateA
      | _ \<Rightarrow> 0)"

text \<open>
  \<open>Array.prototype.sort\<close> is a stable sort: for a consistent comparator its result is the
  one stable ordering. With a comparator that is not consistent (an unparseable date among
  parseable ones) ECMAScript leaves the order to the implementation, so the model follows
  the engine this package runs on, V8 in Node. On an array of fewer than 64 elements that
  engine takes the longest run at the front, reversing it when it is strictly descending,
  and then inserts each remaining element at the place a binary search finds. On longer
  arrays the engine sorts shorter runs in this way and merges them: the same result for a
  consistent comparator, possibly another order for an inconsistent one.
\<close>

text \<open>
  The loop of \<open>CountAndMakeRun\<close>: the elements that continue the run after
  \<open>previousElement\<close>, and the elements left over.
\<close>

fun splitRun :: "('a \<Rightarrow> 'a \<Rightarrow> int) \<Rightarrow> bool \<Rightarrow> 'a \<Rightarrow> 'a list \<Rightarrow> 'a list \<times> 'a list" where
  "splitRun cmp isDescending previousElement [] = ([], [])"
| "splitRun cmp isDescending previousElement (currentElement # rest) =
     (let order = cmp currentElement previousElement
      in if (if isDescending then order \<ge> 0 else order < 0) then ([], currentElement # rest)
         else (let (run, rest') = splitRun cmp isDescending currentElement rest
               in (currentElement # run, rest')))"

text \<open>The run at the front of the array, in ascending order of the comparator, and the rest.\<close>

fun countAndMakeRun :: "('a \<Rightarrow> 'a \<Rightarrow> int) \<Rightarrow> 'a list \<Rightarrow> 'a list \<times> 'a list" where
  "countAndMakeRun cmp (elementHigh # elementLow # rest) =
     (let isDescending = (cmp elementLow elementHigh < 0);
          (run, rest') = splitRun cmp isDescending elementLow rest
      in (if isDescending then rev (elementHigh # elementLow # run)
          else elementHigh # elementLow # run, rest'))"
| "countAndMakeRun cmp xs = (xs, [])"

text \<open>
  The binary search of \<open>BinaryInsertionSort\<close> in the sorted prefix \<open>ys\<close>: the index at
  which \<open>pivot\<close> is inserted. It is called with \<open>right \<le> length ys\<close>, so \<open>ys ! mid\<close> is
  always an element of \<open>ys\<close>.
\<close>

function binarySearch :: "('a \<Rightarrow> 'a \<Rightarrow> int) \<Rightarrow> 'a \<Rightarrow> 'a list \<Rightarrow> nat \<Rightarrow> nat \<Rightarrow> nat" where
  "binarySearch cmp pivot ys left right =
     (if left < right then
        (let mid = left + (right - left) div 2
         in if cmp pivot (ys ! mid) < 0 then binarySearch cmp pivot ys left mid
            else binarySearch cmp pivot ys (mid + 1) right)
      else left)"
  by pat_completeness auto
termination
  by (relation "measure (\<lambda>(cmp, pivot, ys, left, right). right - left)") auto

declare binarySearch.simps [simp del]

definition binaryInsert :: "('a \<Rightarrow> 'a \<Rightarrow> int) \<Rightarrow> 'a list \<Rightarrow> 'a \<Rightarrow> 'a list" where
  "binaryInsert cmp ys pivot =
     (let left = binarySearch cmp pivot ys 0 (length ys)
      in take left ys @ pivot # drop left ys)"

definition array_sort :: "('a \<Rightarrow> 'a \<Rightarrow> int) \<Rightarrow> 'a list \<Rightarrow> 'a list" where
  "array_sort cmp xs =
     (let (run, rest) = countAndMakeRun cmp xs in foldl (binaryInsert cmp) run rest)"

definition loadAllActivity :: "env \<Rightarrow> ActivityFeedConfig \<Rightarrow> ActivityItem list \<times> LoaderName list" where
  "loadAllActivity e st =
     (let config = getConfig st;
          ((activities, k), calls) =
             productsBlock e config (profilesBlock e config (postsBlock e config (([], 0), [])))
      in (array_sort (compareDates e) activities, calls))"

section \<open>Query operations (src/feed.ts)\<close>

text \<open>
  \<open>xs.slice(0, end)\<close> for an integer \<open>end\<close>: a negative \<open>end\<close> counts from the end of the
  array.
\<close>

definition slice0 :: "int \<Rightarrow> 'a list \<Rightarrow> 'a list" where
  "slice0 end xs = take (if end < 0 then nat (int (length xs) + end) else nat end) xs"

text \<open>\<open>limit !== undefined ? filtered.slice(0, limit) : filtered\<close>.\<close>

fun limited :: "int option \<Rightarrow> 'a list \<Rightarrow> 'a list" where
  "limited None filtered = filtered"
| "limited (Some limit) filtered = slice0 limit filtered"

definition getRecentActivityServer ::
  "env \<Rightarrow> ActivityFeedConfig \<Rightarrow> int option \<Rightarrow> ActivityItem list \<times> LoaderName list" where
  "getRecentActivityServer e st limit_arg =
     (let limit = (case limit_arg of None \<Rightarrow> 10 | Some n \<Rightarrow> n);
          (activities, calls) = loadAllActivity e st
      in (slice0 limit activities, calls))"

definition getActivityByTypeServer ::
  "env \<Rightarrow> ActivityFeedConfig \<Rightarrow> ItemType \<Rightarrow> int option \<Rightarrow> ActivityItem list \<times> LoaderName list" where
  "getActivityByTypeServer e st ty limit =
     (let (allActivity, calls) = loadAllActivity e st;
          filtered = filter (\<lambda>item. type item = ty) allActivity
      in (limited limit filtered, calls))"

definition getActivityByCategoryServer ::
  "env \<Rightarrow> ActivityFeedConfig \<Rightarrow> string \<Rightarrow> int option \<Rightarrow> ActivityItem list \<times> LoaderName list" where
  "getActivityByCategoryServer e st cat limit =
     (let (allActivity, calls) = loadAllActivity e st;
          filtered = filter (\<lambda>item. category item = Some cat \<or> productCategory item = Some cat)
                            allActivity
      in (limited limit filtered, calls))"

definition getActivityByTagServer ::
  "env \<Rightarrow> ActivityFeedConfig \<Rightarrow> string \<Rightarrow> int option \<Rightarrow> ActivityItem list \<times> LoaderName list" where
  "getActivityByTagServer e st tag limit =
     (let (allActivity, calls) = loadAllActivity e st;
          filtered = filter (\<lambda>item. case tags item of None \<Rightarrow> False | Some ts \<Rightarrow> List.member ts tag)
                            allActivity
      in (limited limit filtered, calls))"

subsection \<open>Strings: trim, toLowerCase, includes\<close>

text \<open>
  A JavaScript string is a sequence of UTF-16 code units. A \<open>char\<close> is a code unit below
  256, that is U+0000 to U+00FF (Basic Latin and Latin-1 Supplement), and on these the three
  methods are modelled as ECMAScript defines them.

  The white space \<open>trim\<close> removes (WhiteSpace and LineTerminator) is, in this range,
  U+0009 to U+000D, the space U+0020 and the no-break space U+00A0.
\<close>

definition isWhitespace :: "char \<Rightarrow> bool" where
  "isWhitespace c = (let n = (of_char c :: nat) in (9 \<le> n \<and> n \<le> 13) \<or> n = 32 \<or> n = 160)"

definition trim :: "string \<Rightarrow> string" where
  "trim s = rev (dropWhile isWhitespace (rev (dropWhile isWhitespace s)))"

text \<open>
  \<open>toLowerCase\<close> works code unit by code unit in this range: the upper-case letters are
  U+0041 to U+005A and U+00C0 to U+00DE without the multiplication sign U+00D7; the lower
  case of each lies 32 above it. Every other code unit below 256 is its own lower case.
\<close>

definition lowerChar :: "char \<Rightarrow> char" where
  "lowerChar c =
     (let n = (of_char c :: nat)
      in if (65 \<le> n \<and> n \<le> 90) \<or> (192 \<le> n \<and> n \<le> 214) \<or> (216 \<le> n \<and> n \<le> 222)
         then char_of (n + 32) else c)"

definition toLowerCase :: "string \<Rightarrow> string" where
  "toLowerCase s = map lowerChar s"

text \<open>\<open>s.includes(t)\<close>: \<open>t\<close> occurs in \<open>s\<close> as a contiguous run.\<close>

definition string_includes :: "string \<Rightarrow> string \<Rightarrow> bool" where
  "string_includes s t = sublist t s"

definition searchFilter :: "string \<Rightarrow> ActivityItem \<Rightarrow> bool" where
  "searchFilter searchTerm item =
     (if string_includes (toLowerCase (title item)) searchTerm then True
      else if string_includes (toLowerCase (excerpt item)) searchTerm then True
      else if (case author item of None \<Rightarrow> False
               | Some a \<Rightarrow> string_includes (toLowerCase a) searchTerm) then True
      else if (case tags item of None \<Rightarrow> False
               | Some ts \<Rightarrow> list_ex (\<lambda>tag. string_includes (toLowerCase tag) searchTerm) ts) then True
      else False)"

definition searchActivityServer ::
  "env \<Rightarrow> ActivityFeedConfig \<Rightarrow> string \<Rightarrow> int option \<Rightarrow> ActivityItem list \<times> LoaderName list" where
  "searchActivityServer e st query limit =
     (if query = [] \<or> trim query = [] then ([], [])
      else
        let (allActivity, calls) = loadAllActivity e st;
            searchTerm = toLowerCase query;
            filtered = filter (searchFilter searchTerm) allActivity
        in (limited limit filtered, calls))"

section \<open>Notions the specification uses\<close>

text \<open>A post is visible unless it is unpublished or a draft.\<close>

definition visible :: "BlogPostItem \<Rightarrow> bool" where
  "visible p = (\<not> (post_published p = JBool False \<or> post_draft p = JBool True))"

text \<open>The raw items a source contributes: none when its loader is unset or throws.\<close>

definition returned :: "'a loader property \<Rightarrow> 'a list" where
  "returned slot = (case prop_get slot of
                      None \<Rightarrow> []
                    | Some f \<Rightarrow> (case f () of Throws \<Rightarrow> [] | Returns xs \<Rightarrow> xs))"

text \<open>
  The normalized union of all configured sources, draft and unpublished posts excluded;
  \<open>k\<close> ranges over the clock readings a normalizer call may see.
\<close>

definition normalizedUnion :: "env \<Rightarrow> ActivityFeedConfig \<Rightarrow> ActivityItem set" where
  "normalizedUnion e st =
     {i. \<exists>p k. p \<in> set (returned (loadBlogPosts st)) \<and> visible p \<and>
                blogPostToActivity (clock e k) p = Some i}
     \<union> {i. \<exists>p k. p \<in> set (returned (loadProfiles st)) \<and> i = profileToActivity (clock e k) p}
     \<union> {i. \<exists>p k. p \<in> set (returned (loadProducts st)) \<and> i = productToActivity (clock e k) p}"

text \<open>
  Sorted by date descending, the dates read as timestamps: no item stands before one with a
  strictly later timestamp. A date that is not a timestamp is neither earlier nor later
  than any other.
\<close>

definition precedesInTime :: "env \<Rightarrow> ActivityItem \<Rightarrow> ActivityItem \<Rightarrow> bool" where
  "precedesInTime e a b =
     (case (getTime e (date a), getTime e (date b)) of
        (Some ta, Some tb) \<Rightarrow> ta < tb
      | _ \<Rightarrow> False)"

definition dateDescending :: "env \<Rightarrow> ActivityItem list \<Rightarrow> bool" where
  "dateDescending e xs = sorted_wrt (\<lambda>a b. \<not> precedesInTime e a b) xs"

text \<open>How many of the three type-specific fields an item populates.\<close>

definition typeSpecificCount :: "ActivityItem \<Rightarrow> nat" where
  "typeSpecificCount i =
     length (filter (\<lambda>f. f \<noteq> None) [productCategory i, profileRole i, license i])"

text \<open>
  The excerpt as the specification words it: the raw excerpt when present, the empty
  string included, else the description when present, else the empty string.
\<close>

definition specExcerpt :: "string option \<Rightarrow> string option \<Rightarrow> string" where
  "specExcerpt e d = (case e of Some s \<Rightarrow> s | None \<Rightarrow> (case d of Some s \<Rightarrow> s | None \<Rightarrow> []))"

text \<open>
  The items derived from the succeeding loaders, in the order the aggregator builds them:
  the normalized visible posts, then the normalized profiles, then the normalized products,
  the \<open>k\<close>-th normalizer call reading the clock at \<open>k\<close>. A slot that is unset or whose
  loader throws contributes no raw item.
\<close>

definition derivedItems :: "env \<Rightarrow> ActivityFeedConfig \<Rightarrow> ActivityItem list" where
  "derivedItems e st =
     (let posts = returned (loadBlogPosts st);
          profiles = returned (loadProfiles st);
          products = returned (loadProducts st)
      in List.map_filter (\<lambda>(k, p). blogPostToActivity (clock e k) p) (enumerate 0 posts)
         @ map (\<lambda>(k, p). profileToActivity (clock e k) p) (enumerate (length posts) profiles)
         @ map (\<lambda>(k, p). productToActivity (clock e k) p)
               (enumerate (length posts + length profiles) products))"

text \<open>
  A configuration in which every slot whose loader throws is cleared: what remains are the
  succeeding loaders.
\<close>

definition dropFailing :: "'a loader property \<Rightarrow> 'a loader property" where
  "dropFailing slot =
     (case slot of
        Value f \<Rightarrow> (case f () of Throws \<Rightarrow> Absent | Returns xs \<Rightarrow> Value f)
      | _ \<Rightarrow> slot)"

definition succeedingOnly :: "ActivityFeedConfig \<Rightarrow> ActivityFeedConfig" where
  "succeedingOnly st =
     \<lparr> loadBlogPosts = dropFailing (loadBlogPosts st),
       loadProfiles = dropFailing (loadProfiles st),
       loadProducts = dropFailing (loadProducts st) \<rparr>"

text \<open>A slot succeeds when a loader is configured in it and that loader returns.\<close>

definition succeeds :: "'a loader property \<Rightarrow> bool" where
  "succeeds slot = (case prop_get slot of None \<Rightarrow> False | Some f \<Rightarrow> f () \<noteq> Throws)"

text \<open>
  A raw item carries a date when one of the date fields its normalizer consults is present
  and not empty. In a dated configuration every item the loaders return carries a date;
  posts that are excluded anyway need none.
\<close>

definition postDated :: "BlogPostItem \<Rightarrow> bool" where
  "postDated p = truthy (or_js (post_date p) (post_publishedAt p))"

definition profileDated :: "ProfileItem \<Rightarrow> bool" where
  "profileDated p =
     truthy (or_js (or_js (profile_publishedAt p) (profile_updatedAt p)) (profile_joinedDate p))"

definition productDated :: "ProductItem \<Rightarrow> bool" where
  "productDated p = truthy (or_js (product_publishedAt p) (product_updatedAt p))"

definition allDated :: "ActivityFeedConfig \<Rightarrow> bool" where
  "allDated st =
     (list_all (\<lambda>p. \<not> visible p \<or> postDated p) (returned (loadBlogPosts st))
      \<and> list_all profileDated (returned (loadProfiles st))
      \<and> list_all productDated (returned (loadProducts st)))"

text \<open>
  An item matches a query, in the specification's words: the lowercased query is a substring
  of the lowercased title, or of the lowercased excerpt, or of the lowercased author when
  there is one, or of the lowercase form of some tag.
\<close>

definition searchMatches :: "string \<Rightarrow> ActivityItem \<Rightarrow> bool" where
  "searchMatches q item =
     (sublist (toLowerCase q) (toLowerCase (title item))
      \<or> sublist (toLowerCase q) (toLowerCase (excerpt item))
      \<or> (\<exists>a. author item = Some a \<and> sublist (toLowerCase q) (toLowerCase a))
      \<or> (\<exists>ts t. tags item = Some ts \<and> t \<in> set ts \<and> sublist (toLowerCase q) (toLowerCase t)))"

text \<open>
  The white space at the two ends of a query, which \<open>trim\<close> would remove, and the strings
  of an item that a search looks into.
\<close>

definition leadingWs :: "string \<Rightarrow> string" where
  "leadingWs q = takeWhile isWhitespace q"

definition trailingWs :: "string \<Rightarrow> string" where
  "trailingWs q = rev (takeWhile isWhitespace (rev q))"

definition searchedStrings :: "ActivityItem \<Rightarrow> string list" where
  "searchedStrings item =
     [title item, excerpt item]
     @ (case author item of None \<Rightarrow> [] | Some a \<Rightarrow> [a])
     @ (case tags item of None \<Rightarrow> [] | Some ts \<Rightarrow> ts)"

section \<open>Example data\<close>

text \<open>
  A post, a profile and a product in the manner of the test suite's fixtures, dated
  2025-01-01, 2025-04-01 and 2025-03-01.
\<close>

definition examplePost :: BlogPostItem where
  "examplePost =
     \<lparr> post_title = ''Svelte Guide'', post_slug = ''svelte-guide'',
       post_excerpt = Some ''A test excerpt'', post_description = None,
       post_date = Some ''2025-01-01'', post_publishedAt = None,
       post_featuredImage = None, post_coverImage = None, post_heroImage = None,
       post_author = Some (AuthorObject ''Jane Doe''),
       post_category = Some ''tech'', post_categories = None,
       post_tags = Some [''web''],
       post_published = JBool True, post_draft = JBool False \<rparr>"

definition exampleProfile :: ProfileItem where
  "exampleProfile =
     \<lparr> profile_name = Some ''Alice'', profile_displayName = None, profile_slug = ''alice'',
       profile_bio = Some ''Writes about Svelte'',
       profile_publishedAt = Some ''2025-04-01'', profile_updatedAt = None,
       profile_joinedDate = None, profile_avatar = None, profile_imageUrl = None,
       profile_role = Some ''admin'', profile_tags = None, profile_interests = None \<rparr>"

definition exampleProduct :: ProductItem where
  "exampleProduct =
     \<lparr> product_name = ''Widget'', product_slug = ''widget'',
       product_excerpt = None, product_description = Some ''A useful widget'',
       product_publishedAt = Some ''2025-03-01'', product_updatedAt = None,
       product_image = None, product_category = Some ''tools'',
       product_tags = Some [''hardware''], product_license = Some ''MIT'' \<rparr>"

text \<open>
  What \<open>new Date(s).getTime()\<close> returns on the date strings of the examples; a string
  outside the table stands for one that \<open>Date\<close> cannot parse.
\<close>

definition exampleGetTime :: "string \<Rightarrow> int option" where
  "exampleGetTime s =
     (if s = ''2025-01-01'' then Some 1735689600000
      else if s = ''2025-03-01'' then Some 1740787200000
      else if s = ''2025-04-01'' then Some 1743465600000
      else if s = ''2026-01-01T00:00:00.000Z'' then Some 1767225600000
      else if s = ''2026-01-02T00:00:00.000Z'' then Some 1767312000000
      else None)"

definition exampleEnv :: env where
  "exampleEnv = \<lparr> clock = (\<lambda>k. ''2026-01-01T00:00:00.000Z''), getTime = exampleGetTime \<rparr>"

definition laterEnv :: env where
  "laterEnv = \<lparr> clock = (\<lambda>k. ''2026-01-02T00:00:00.000Z''), getTime = exampleGetTime \<rparr>"

definition exampleConfig :: ActivityFeedConfig where
  "exampleConfig =
     \<lparr> loadBlogPosts = Value (\<lambda>_. Returns [examplePost]),
       loadProfiles = Value (\<lambda>_. Returns [exampleProfile]),
       loadProducts = Value (\<lambda>_. Returns [exampleProduct]) \<rparr>"

text \<open>Three posts; the date of the second is not a date.\<close>

definition badDateConfig :: ActivityFeedConfig where
  "badDateConfig =
     \<lparr> loadBlogPosts = Value (\<lambda>_. Returns
          [examplePost,
           examplePost\<lparr> post_slug := ''undated'', post_date := Some ''not-a-date'' \<rparr>,
           examplePost\<lparr> post_slug := ''march'', post_date := Some ''2025-03-01'' \<rparr>]),
       loadProfiles = Absent,
       loadProducts = Absent \<rparr>"

definition emptyExcerptProduct :: ProductItem where
  "emptyExcerptProduct =
     exampleProduct\<lparr> product_excerpt := Some [], product_description := Some ''A useful widget'' \<rparr>"

text \<open>The post loader throws, the profile loader works, no product loader is set.\<close>

definition failingPostsConfig :: ActivityFeedConfig where
  "failingPostsConfig =
     \<lparr> loadBlogPosts = Value (\<lambda>_. Throws),
       loadProfiles = Value (\<lambda>_. Returns [exampleProfile]),
       loadProducts = Absent \<rparr>"

text \<open>The post and product loaders work, the profile loader throws.\<close>

definition workingPostsConfig :: ActivityFeedConfig where
  "workingPostsConfig =
     \<lparr> loadBlogPosts = Value (\<lambda>_. Returns [examplePost]),
       loadProfiles = Value (\<lambda>_. Throws),
       loadProducts = Value (\<lambda>_. Returns [exampleProduct]) \<rparr>"

text \<open>Two posts; the title of the first is \<open>CAF\<close> followed by U+00C9.\<close>

definition cafeConfig :: ActivityFeedConfig where
  "cafeConfig =
     \<lparr> loadBlogPosts = Value (\<lambda>_. Returns
          [examplePost\<lparr> post_title := ''CAF'' @ [CHR 0xC9], post_slug := ''cafe'' \<rparr>, examplePost]),
       loadProfiles = Absent,
       loadProducts = Absent \<rparr>"

text \<open>One post that carries neither \<open>date\<close> nor \<open>publishedAt\<close>.\<close>

definition undatedConfig :: ActivityFeedConfig where
  "undatedConfig =
     \<lparr> loadBlogPosts = Value (\<lambda>_. Returns [examplePost\<lparr> post_date := None \<rparr>]),
       loadProfiles = Absent,
       loadProducts = Absent \<rparr>"

section \<open>Evaluation\<close>

lemmas example_defs = examplePost_def exampleProfile_def exampleProduct_def exampleGetTime_def
  exampleEnv_def laterEnv_def exampleConfig_def

lemmas feed_defs = loadAllActivity_def getConfig_def postsBlock_def profilesBlock_def
  productsBlock_def array_sort_def binaryInsert_def binarySearch.simps compareDates_def blogPostToActivity_def profileToActivity_def
  productToActivity_def or_js_def slice0_def getRecentActivityServer_def Let_def

section \<open>The aggregate\<close>

lemma spread_Absent: "spread Absent x = x"
  by (cases x) simp_all

lemma getConfig_id: "getConfig st = st"
  by (simp add: getConfig_def spread_Absent)

lemma splitRun_append: "splitRun cmp d prev xs = (run, rest) \<Longrightarrow> run @ rest = xs"
proof (induction xs arbitrary: prev run rest)
  case Nil
  then show ?case by simp
next
  case (Cons x xs)
  show ?case
  proof (cases "if d then cmp x prev \<ge> 0 else cmp x prev < 0")
    case True
    with Cons.prems show ?thesis by (cases d) (auto simp: Let_def)
  next
    case False
    obtain run' rest' where s: "splitRun cmp d x xs = (run', rest')" by (cases "splitRun cmp d x xs")
    from Cons.IH[OF s] have "run' @ rest' = xs" .
    with Cons.prems False s show ?thesis by (cases d) (auto simp: Let_def)
  qed
qed

lemma countAndMakeRun_short: "length xs < 2 \<Longrightarrow> countAndMakeRun cmp xs = (xs, [])"
proof (cases xs)
  case Nil
  then show ?thesis by simp
next
  case (Cons a t)
  assume "length xs < 2"
  with Cons have "t = []" by simp
  with Cons show ?thesis by simp
qed

lemma sorted_short: "length xs < 2 \<Longrightarrow> sorted (map k xs)"
proof (cases xs)
  case Nil
  then show ?thesis by simp
next
  case (Cons a t)
  assume "length xs < 2"
  with Cons have "t = []" by simp
  with Cons show ?thesis by simp
qed

lemma two_or_more:
  assumes "\<not> length xs < 2"
  obtains hi lo r where "xs = hi # lo # r"
proof -
  from assms obtain hi t where t: "xs = hi # t" by (cases xs) auto
  with assms obtain lo r where "t = lo # r" by (cases t) auto
  with t that show thesis by simp
qed

lemma countAndMakeRun_mset:
  assumes c: "countAndMakeRun cmp xs = (run, rest)"
  shows "mset run + mset rest = mset xs"
proof (cases "length xs < 2")
  case True
  with c show ?thesis by (simp add: countAndMakeRun_short)
next
  case False
  then obtain hi lo r where xs: "xs = hi # lo # r" by (rule two_or_more)
  obtain run' rest' where s: "splitRun cmp (cmp lo hi < 0) lo r = (run', rest')"
    by (cases "splitRun cmp (cmp lo hi < 0) lo r")
  from splitRun_append[OF s] have "run' @ rest' = r" .
  then have "mset run' + mset rest' = mset r" by (metis mset_append)
  with c xs s show ?thesis by (auto simp: Let_def split: if_splits)
qed

lemma mset_binaryInsert: "mset (binaryInsert cmp ys pivot) = add_mset pivot (mset ys)"
proof -
  let ?p = "binarySearch cmp pivot ys 0 (length ys)"
  have "mset (take ?p ys) + mset (drop ?p ys) = mset ys"
    by (metis append_take_drop_id mset_append)
  then show ?thesis by (simp add: binaryInsert_def Let_def)
qed

lemma mset_foldl_binaryInsert:
  "mset (foldl (binaryInsert cmp) ys rest) = mset ys + mset rest"
  by (induction rest arbitrary: ys) (simp_all add: mset_binaryInsert)

lemma mset_array_sort: "mset (array_sort cmp xs) = mset xs"
proof -
  obtain run rest where c: "countAndMakeRun cmp xs = (run, rest)"
    by (cases "countAndMakeRun cmp xs")
  then show ?thesis
    by (simp add: array_sort_def mset_foldl_binaryInsert countAndMakeRun_mset)
qed

lemma set_array_sort: "set (array_sort cmp xs) = set xs"
  by (metis mset_array_sort set_mset_mset)

lemma length_array_sort: "length (array_sort cmp xs) = length xs"
  by (metis mset_array_sort size_mset)

lemma splitRun_ascending:
  fixes k :: "'a \<Rightarrow> 'b :: linorder"
  assumes "\<forall>x\<in>insert prev (set xs). \<forall>y\<in>insert prev (set xs). (cmp x y < 0) = (k x < k y)"
    and "splitRun cmp False prev xs = (run, rest)"
  shows "sorted (map k (prev # run))"
  using assms
proof (induction xs arbitrary: prev run rest)
  case Nil
  then show ?case by simp
next
  case (Cons x xs)
  show ?case
  proof (cases "cmp x prev < 0")
    case True
    with Cons.prems(2) show ?thesis by simp
  next
    case False
    obtain run' rest' where s: "splitRun cmp False x xs = (run', rest')"
      by (cases "splitRun cmp False x xs")
    from Cons.prems(1) have "\<forall>a\<in>insert x (set xs). \<forall>b\<in>insert x (set xs). (cmp a b < 0) = (k a < k b)"
      by simp
    from Cons.IH[OF this s] have srt: "sorted (map k (x # run'))" .
    from Cons.prems(1) False have le: "k prev \<le> k x" by auto
    from Cons.prems(2) False s have run: "run = x # run'" by (simp add: Let_def)
    have "\<forall>y\<in>set run'. k prev \<le> k y"
    proof
      fix y assume "y \<in> set run'"
      with srt have "k x \<le> k y" by simp
      with le show "k prev \<le> k y" by (rule order_trans)
    qed
    with srt le show ?thesis by (simp add: run)
  qed
qed

lemma splitRun_descending:
  fixes k :: "'a \<Rightarrow> 'b :: linorder"
  assumes "\<forall>x\<in>insert prev (set xs). \<forall>y\<in>insert prev (set xs). (cmp x y < 0) = (k x < k y)"
    and "splitRun cmp True prev xs = (run, rest)"
  shows "sorted_wrt (\<lambda>a b. k b < k a) (prev # run)"
  using assms
proof (induction xs arbitrary: prev run rest)
  case Nil
  then show ?case by simp
next
  case (Cons x xs)
  show ?case
  proof (cases "cmp x prev \<ge> 0")
    case True
    with Cons.prems(2) show ?thesis by simp
  next
    case False
    obtain run' rest' where s: "splitRun cmp True x xs = (run', rest')"
      by (cases "splitRun cmp True x xs")
    from Cons.prems(1) have "\<forall>a\<in>insert x (set xs). \<forall>b\<in>insert x (set xs). (cmp a b < 0) = (k a < k b)"
      by simp
    from Cons.IH[OF this s] have srt: "sorted_wrt (\<lambda>a b. k b < k a) (x # run')" .
    from Cons.prems(1) False have lt: "k x < k prev" by auto
    from Cons.prems(2) False s have run: "run = x # run'" by (simp add: Let_def)
    from srt lt have "\<forall>y\<in>set (x # run'). k y < k prev" by auto
    with srt show ?thesis by (simp add: run)
  qed
qed

lemma filter_strictly_descending:
  "sorted_wrt (\<lambda>a b. (k b :: 'b :: linorder) < k a) xs \<Longrightarrow> length (filter (\<lambda>x. c = k x) xs) \<le> 1"
proof (induction xs)
  case Nil
  then show ?case by simp
next
  case (Cons a xs)
  show ?case
  proof (cases "c = k a")
    case True
    with Cons.prems have "\<forall>x\<in>set xs. c \<noteq> k x" by auto
    then have "filter (\<lambda>x. c = k x) xs = []" by (simp add: filter_empty_conv)
    with True show ?thesis by simp
  next
    case False
    with Cons show ?thesis by simp
  qed
qed

lemma filter_rev_strictly_descending:
  assumes "sorted_wrt (\<lambda>a b. (k b :: 'b :: linorder) < k a) xs"
  shows "filter (\<lambda>x. c = k x) (rev xs) = filter (\<lambda>x. c = k x) xs"
proof -
  have "length (filter (\<lambda>x. c = k x) xs) \<le> 1"
    by (rule filter_strictly_descending[OF assms])
  then have "rev (filter (\<lambda>x. c = k x) xs) = filter (\<lambda>x. c = k x) xs"
    by (cases "filter (\<lambda>x. c = k x) xs" rule: list.exhaust) (auto simp: le_Suc_eq)
  then show ?thesis by (simp add: rev_filter)
qed

lemma countAndMakeRun_stable:
  fixes k :: "'a \<Rightarrow> 'b :: linorder"
  assumes agree: "\<forall>x\<in>set xs. \<forall>y\<in>set xs. (cmp x y < 0) = (k x < k y)"
    and c: "countAndMakeRun cmp xs = (run, rest)"
  shows "sorted (map k run) \<and> (\<forall>c. filter (\<lambda>x. c = k x) (run @ rest) = filter (\<lambda>x. c = k x) xs)
         \<and> set run \<union> set rest = set xs"
proof (cases "length xs < 2")
  case True
  with c have "run = xs" "rest = []" by (simp_all add: countAndMakeRun_short)
  with True show ?thesis by (simp add: sorted_short)
next
  case False
  then obtain hi lo r where xs: "xs = hi # lo # r" by (rule two_or_more)
  obtain run' rest' where s: "splitRun cmp (cmp lo hi < 0) lo r = (run', rest')"
    by (cases "splitRun cmp (cmp lo hi < 0) lo r")
  from splitRun_append[OF s] have app: "run' @ rest' = r" .
  from agree have ag': "\<forall>x\<in>insert lo (set r). \<forall>y\<in>insert lo (set r). (cmp x y < 0) = (k x < k y)"
    by (simp add: xs)
  show ?thesis
  proof (cases "cmp lo hi < 0")
    case True
    with s have s': "splitRun cmp True lo r = (run', rest')" by simp
    from splitRun_descending[OF ag' s'] have d: "sorted_wrt (\<lambda>a b. k b < k a) (lo # run')" .
    from agree True have "k lo < k hi" by (auto simp: xs)
    with d have d2: "sorted_wrt (\<lambda>a b. k b < k a) (hi # lo # run')" by auto
    from c True s have run: "run = rev (hi # lo # run')" and rest: "rest = rest'"
      by (simp_all add: xs Let_def)
    from d2 have "sorted_wrt (\<lambda>a b. k a < k b) (rev (hi # lo # run'))"
      by (simp only: sorted_wrt_rev)
    then have "sorted_wrt (\<lambda>a b. k a \<le> k b) (rev (hi # lo # run'))"
      by (rule sorted_wrt_mono_rel[rotated]) auto
    then have srt: "sorted (map k run)" by (simp only: run sorted_map)
    have "\<forall>c. filter (\<lambda>x. c = k x) (run @ rest) = filter (\<lambda>x. c = k x) xs"
    proof
      fix c
      have "filter (\<lambda>x. c = k x) (run @ rest)
              = filter (\<lambda>x. c = k x) (rev (hi # lo # run')) @ filter (\<lambda>x. c = k x) rest'"
        by (simp only: run rest filter_append)
      also have "\<dots> = filter (\<lambda>x. c = k x) (hi # lo # run') @ filter (\<lambda>x. c = k x) rest'"
        by (simp only: filter_rev_strictly_descending[OF d2])
      also have "\<dots> = filter (\<lambda>x. c = k x) ((hi # lo # run') @ rest')"
        by (simp only: filter_append)
      also have "\<dots> = filter (\<lambda>x. c = k x) xs"
        using app by (simp add: xs)
      finally show "filter (\<lambda>x. c = k x) (run @ rest) = filter (\<lambda>x. c = k x) xs" .
    qed
    moreover have "set run \<union> set rest = set xs"
      using app by (auto simp: run rest xs)
    ultimately show ?thesis using srt by blast
  next
    case False
    with s have s': "splitRun cmp False lo r = (run', rest')" by simp
    from splitRun_ascending[OF ag' s'] have a: "sorted (map k (lo # run'))" .
    from agree False have le: "k hi \<le> k lo" by (auto simp: xs)
    have "\<forall>y\<in>set run'. k hi \<le> k y"
    proof
      fix y assume "y \<in> set run'"
      with a have "k lo \<le> k y" by simp
      with le show "k hi \<le> k y" by (rule order_trans)
    qed
    with a le have srt: "sorted (map k (hi # lo # run'))" by simp
    from c False s have run: "run = hi # lo # run'" and rest: "rest = rest'"
      by (simp_all add: xs Let_def)
    from app have "run @ rest = xs" by (simp add: run rest xs)
    then show ?thesis using srt run by (metis set_append)
  qed
qed

lemma binarySearch_position:
  fixes k :: "'a \<Rightarrow> 'b :: linorder"
  assumes "sorted (map k ys)"
    and "\<forall>y\<in>set ys. (cmp pivot y < 0) = (k pivot < k y)"
    and "left \<le> right" and "right \<le> length ys"
    and "\<forall>i<left. k (ys ! i) \<le> k pivot"
    and "\<forall>i. right \<le> i \<and> i < length ys \<longrightarrow> k pivot < k (ys ! i)"
  shows "binarySearch cmp pivot ys left right \<le> length ys
         \<and> (\<forall>i<binarySearch cmp pivot ys left right. k (ys ! i) \<le> k pivot)
         \<and> (\<forall>i. binarySearch cmp pivot ys left right \<le> i \<and> i < length ys \<longrightarrow> k pivot < k (ys ! i))"
  using assms
proof (induction cmp pivot ys left right rule: binarySearch.induct)
  case (1 cmp pivot ys left right)
  show ?case
  proof (cases "left < right")
    case False
    then have eq: "binarySearch cmp pivot ys left right = left"
      by (simp add: binarySearch.simps[of cmp pivot ys left right])
    from False "1.prems"(3) have lr: "left = right" by simp
    show ?thesis unfolding eq using lr "1.prems"(4,5,6) by simp
  next
    case True
    define mid where "mid = left + (right - left) div 2"
    from True have mid: "left \<le> mid" "mid < right" by (auto simp: mid_def)
    with "1.prems"(4) have midlen: "mid < length ys" by simp
    then have midset: "ys ! mid \<in> set ys" by simp
    have mono: "k (ys ! i) \<le> k (ys ! j)" if "i \<le> j" "j < length ys" for i j
    proof -
      from that have "map k ys ! i \<le> map k ys ! j"
        using sorted_nth_mono[OF "1.prems"(1), of i j] by simp
      with that show ?thesis by simp
    qed
    show ?thesis
    proof (cases "cmp pivot (ys ! mid) < 0")
      case lt: True
      with "1.prems"(2) midset have kl: "k pivot < k (ys ! mid)" by blast
      have up: "\<forall>i. mid \<le> i \<and> i < length ys \<longrightarrow> k pivot < k (ys ! i)"
        using kl mono by (meson less_le_trans)
      have eq: "binarySearch cmp pivot ys left right = binarySearch cmp pivot ys left mid"
        using True lt by (simp add: binarySearch.simps[of cmp pivot ys left right] mid_def Let_def)
      have "mid \<le> length ys" using midlen by simp
      then show ?thesis unfolding eq
        by (rule "1.IH"(1)[OF True mid_def lt "1.prems"(1) "1.prems"(2) mid(1) _ "1.prems"(5) up])
    next
      case ge: False
      with "1.prems"(2) midset have kl: "k (ys ! mid) \<le> k pivot" by auto
      have low: "\<forall>i<mid + 1. k (ys ! i) \<le> k pivot"
      proof (intro allI impI)
        fix i assume "i < mid + 1"
        then have "i \<le> mid" by simp
        from mono[OF this midlen] kl show "k (ys ! i) \<le> k pivot" by simp
      qed
      have eq: "binarySearch cmp pivot ys left right = binarySearch cmp pivot ys (mid + 1) right"
        using True ge by (simp add: binarySearch.simps[of cmp pivot ys left right] mid_def Let_def)
      have "mid + 1 \<le> right" using mid by simp
      then show ?thesis unfolding eq
        by (rule "1.IH"(2)[OF True mid_def ge "1.prems"(1) "1.prems"(2) _ "1.prems"(4) low "1.prems"(6)])
    qed
  qed
qed

lemma binaryInsert_stable:
  fixes k :: "'a \<Rightarrow> 'b :: linorder"
  assumes srt: "sorted (map k ys)"
    and agree: "\<forall>y\<in>set ys. (cmp pivot y < 0) = (k pivot < k y)"
  shows "sorted (map k (binaryInsert cmp ys pivot))
         \<and> (\<forall>c. filter (\<lambda>x. c = k x) (binaryInsert cmp ys pivot) = filter (\<lambda>x. c = k x) (ys @ [pivot]))
         \<and> set (binaryInsert cmp ys pivot) = insert pivot (set ys)"
proof -
  let ?p = "binarySearch cmp pivot ys 0 (length ys)"
  have "?p \<le> length ys \<and> (\<forall>i<?p. k (ys ! i) \<le> k pivot)
          \<and> (\<forall>i. ?p \<le> i \<and> i < length ys \<longrightarrow> k pivot < k (ys ! i))"
    by (rule binarySearch_position[where k = k]) (use srt agree in auto)
  then have p: "?p \<le> length ys" and lo: "\<forall>i<?p. k (ys ! i) \<le> k pivot"
    and hi: "\<forall>i. ?p \<le> i \<and> i < length ys \<longrightarrow> k pivot < k (ys ! i)"
    by blast+
  have tk: "\<forall>x\<in>set (take ?p ys). k x \<le> k pivot"
  proof
    fix x assume "x \<in> set (take ?p ys)"
    then obtain i where "i < length (take ?p ys)" "take ?p ys ! i = x"
      by (auto simp: in_set_conv_nth)
    with lo show "k x \<le> k pivot" by auto
  qed
  have dr: "\<forall>x\<in>set (drop ?p ys). k pivot < k x"
  proof
    fix x assume "x \<in> set (drop ?p ys)"
    then obtain i where i: "i < length (drop ?p ys)" "drop ?p ys ! i = x"
      by (auto simp: in_set_conv_nth)
    then have "?p + i < length ys" "ys ! (?p + i) = x" using p by auto
    with hi show "k pivot < k x" by (metis le_add1)
  qed
  have bi: "binaryInsert cmp ys pivot = take ?p ys @ pivot # drop ?p ys"
    by (simp add: binaryInsert_def Let_def)
  from srt have "sorted (take ?p (map k ys))" by (rule sorted_wrt_take)
  then have s1: "sorted (map k (take ?p ys))" by (simp only: take_map)
  from srt have "sorted (drop ?p (map k ys))" by (rule sorted_wrt_drop)
  then have s2: "sorted (map k (drop ?p ys))" by (simp only: drop_map)
  have between: "\<forall>x\<in>set (take ?p ys). \<forall>y\<in>set (drop ?p ys). k x \<le> k y"
    using tk dr by (meson le_less_trans less_imp_le)
  have "sorted (map k (pivot # drop ?p ys))"
    using s2 dr by (simp add: less_imp_le)
  moreover have "\<forall>x\<in>set (take ?p ys). \<forall>y\<in>set (pivot # drop ?p ys). k x \<le> k y"
    using tk between by simp
  ultimately have sorted: "sorted (map k (take ?p ys @ pivot # drop ?p ys))"
    using s1 by (simp only: map_append sorted_append set_map) blast
  have stable: "\<forall>c. filter (\<lambda>x. c = k x) (take ?p ys @ pivot # drop ?p ys)
                  = filter (\<lambda>x. c = k x) (ys @ [pivot])"
  proof
    fix c
    have ys: "filter (\<lambda>x. c = k x) ys
                = filter (\<lambda>x. c = k x) (take ?p ys) @ filter (\<lambda>x. c = k x) (drop ?p ys)"
      by (metis append_take_drop_id filter_append)
    show "filter (\<lambda>x. c = k x) (take ?p ys @ pivot # drop ?p ys)
                  = filter (\<lambda>x. c = k x) (ys @ [pivot])"
    proof (cases "c = k pivot")
      case True
      with dr have "\<forall>x\<in>set (drop ?p ys). c \<noteq> k x" by auto
      then have "filter (\<lambda>x. c = k x) (drop ?p ys) = []" by (simp add: filter_empty_conv)
      with True ys show ?thesis by simp
    next
      case False
      with ys show ?thesis by simp
    qed
  qed
  have "set (take ?p ys) \<union> set (drop ?p ys) = set ys"
    by (metis append_take_drop_id set_append)
  then have "set (take ?p ys @ pivot # drop ?p ys) = insert pivot (set ys)"
    by (simp only: set_append list.set Un_insert_right)
  with sorted stable show ?thesis by (simp only: bi) blast
qed

lemma foldl_binaryInsert_stable:
  fixes k :: "'a \<Rightarrow> 'b :: linorder"
  assumes "sorted (map k ys)"
    and "\<forall>x\<in>set ys \<union> set rest. \<forall>y\<in>set ys \<union> set rest. (cmp x y < 0) = (k x < k y)"
  shows "sorted (map k (foldl (binaryInsert cmp) ys rest))
         \<and> (\<forall>c. filter (\<lambda>x. c = k x) (foldl (binaryInsert cmp) ys rest)
                  = filter (\<lambda>x. c = k x) (ys @ rest))"
  using assms
proof (induction rest arbitrary: ys)
  case Nil
  then show ?case by simp
next
  case (Cons pivot rest)
  from Cons.prems(2) have ag: "\<forall>y\<in>set ys. (cmp pivot y < 0) = (k pivot < k y)" by simp
  from binaryInsert_stable[where k = k and cmp = cmp and pivot = pivot and ys = ys] Cons.prems(1) ag
  have s: "sorted (map k (binaryInsert cmp ys pivot))"
    and f: "\<forall>c. filter (\<lambda>x. c = k x) (binaryInsert cmp ys pivot) = filter (\<lambda>x. c = k x) (ys @ [pivot])"
    and st: "set (binaryInsert cmp ys pivot) = insert pivot (set ys)"
    by blast+
  from Cons.prems(2) st
  have "\<forall>x\<in>set (binaryInsert cmp ys pivot) \<union> set rest.
          \<forall>y\<in>set (binaryInsert cmp ys pivot) \<union> set rest. (cmp x y < 0) = (k x < k y)"
    by simp
  from Cons.IH[OF s this] f show ?case by simp
qed

lemma array_sort_sort_key_general:
  fixes k :: "'a \<Rightarrow> 'b :: linorder"
  assumes "\<forall>x\<in>set xs. \<forall>y\<in>set xs. (cmp x y < 0) = (k x < k y)"
  shows "array_sort cmp xs = sort_key k xs"
proof -
  obtain run rest where c: "countAndMakeRun cmp xs = (run, rest)"
    by (cases "countAndMakeRun cmp xs")
  from countAndMakeRun_stable[OF assms c]
  have s: "sorted (map k run)"
    and f: "\<forall>c. filter (\<lambda>x. c = k x) (run @ rest) = filter (\<lambda>x. c = k x) xs"
    and st: "set run \<union> set rest = set xs"
    by blast+
  from assms st have "\<forall>x\<in>set run \<union> set rest. \<forall>y\<in>set run \<union> set rest. (cmp x y < 0) = (k x < k y)"
    by simp
  from foldl_binaryInsert_stable[OF s this] f
  have "sorted (map k (foldl (binaryInsert cmp) run rest))"
    and "\<forall>c. filter (\<lambda>x. c = k x) (foldl (binaryInsert cmp) run rest) = filter (\<lambda>x. c = k x) xs"
    by simp_all
  moreover have as: "array_sort cmp xs = foldl (binaryInsert cmp) run rest"
    by (simp add: array_sort_def c)
  ultimately have "sorted (map k (array_sort cmp xs))"
    and "\<And>a. filter (\<lambda>x. k a = k x) (array_sort cmp xs) = filter (\<lambda>x. k a = k x) xs"
    by simp_all
  with mset_array_sort[of cmp xs] show ?thesis
    by (intro properties_for_sort_key[symmetric]) auto
qed

lemma array_sort_sort_key:
  assumes "\<forall>y\<in>set xs. getTime e (date y) \<noteq> None"
  shows "array_sort (compareDates e) xs = sort_key (\<lambda>i. - the (getTime e (date i))) xs"
proof (rule array_sort_sort_key_general)
  show "\<forall>x\<in>set xs. \<forall>y\<in>set xs.
          (compareDates e x y < 0) = (- the (getTime e (date x)) < - the (getTime e (date y)))"
  proof (intro ballI)
    fix x y
    assume "x \<in> set xs" "y \<in> set xs"
    with assms have "getTime e (date x) \<noteq> None" "getTime e (date y) \<noteq> None"
      by blast+
    then obtain dateA dateB
      where "getTime e (date x) = Some dateA" "getTime e (date y) = Some dateB"
      by blast
    then show "(compareDates e x y < 0)
                 = (- the (getTime e (date x)) < - the (getTime e (date y)))"
      by (simp add: compareDates_def)
  qed
qed

lemma dateDescending_array_sort:
  assumes "\<forall>y\<in>set xs. getTime e (date y) \<noteq> None"
  shows "dateDescending e (array_sort (compareDates e) xs)"
proof -
  let ?f = "\<lambda>i. - the (getTime e (date i))"
  have "sorted (map ?f (sort_key ?f xs))" by (rule sorted_sort_key)
  then have "sorted_wrt (\<lambda>a b. ?f a \<le> ?f b) (sort_key ?f xs)"
    by (simp add: sorted_map)
  then have "sorted_wrt (\<lambda>a b. \<not> precedesInTime e a b) (sort_key ?f xs)"
    by (rule sorted_wrt_mono_rel[rotated]) (auto simp: precedesInTime_def split: option.splits)
  then show ?thesis
    by (simp add: dateDescending_def array_sort_sort_key[OF assms])
qed

lemma dateDescending_take: "dateDescending e xs \<Longrightarrow> dateDescending e (take n xs)"
  by (simp add: dateDescending_def sorted_wrt_take)

lemma pushPosts_mem:
  "i \<in> set (fst (pushPosts e posts s)) \<Longrightarrow>
     i \<in> set (fst s) \<or> (\<exists>p k. p \<in> set posts \<and> visible p \<and> blogPostToActivity (clock e k) p = Some i)"
proof (induction posts arbitrary: s)
  case Nil
  then show ?case by simp
next
  case (Cons p posts)
  obtain activities k where s: "s = (activities, k)" by (cases s)
  show ?case
  proof (cases "blogPostToActivity (clock e k) p")
    case None
    with Cons.prems have "i \<in> set (fst (pushPosts e posts (activities, Suc k)))"
      by (simp add: s)
    from Cons.IH[OF this] show ?thesis by (auto simp: s)
  next
    case (Some item)
    then have v: "visible p"
      by (auto simp: visible_def blogPostToActivity_def split: if_splits)
    from Some Cons.prems have "i \<in> set (fst (pushPosts e posts (activities @ [item], Suc k)))"
      by (simp add: s)
    from Cons.IH[OF this] have
      "i \<in> set activities \<or> i = item \<or>
       (\<exists>p k. p \<in> set posts \<and> visible p \<and> blogPostToActivity (clock e k) p = Some i)"
      by auto
    then show ?thesis
    proof (elim disjE)
      assume "i = item"
      with Some v have "p \<in> set (p # posts) \<and> visible p \<and> blogPostToActivity (clock e k) p = Some i"
        by simp
      then show ?thesis by blast
    qed (auto simp: s)
  qed
qed

lemma pushProfiles_mem:
  "i \<in> set (fst (pushProfiles e ps s)) \<Longrightarrow>
     i \<in> set (fst s) \<or> (\<exists>p k. p \<in> set ps \<and> i = profileToActivity (clock e k) p)"
proof (induction ps arbitrary: s)
  case Nil
  then show ?case by simp
next
  case (Cons p ps)
  obtain activities k where s: "s = (activities, k)" by (cases s)
  from Cons.prems
  have "i \<in> set (fst (pushProfiles e ps (activities @ [profileToActivity (clock e k) p], Suc k)))"
    by (simp add: s)
  from Cons.IH[OF this] have
    "i \<in> set activities \<or> i = profileToActivity (clock e k) p \<or>
     (\<exists>p k. p \<in> set ps \<and> i = profileToActivity (clock e k) p)"
    by auto
  then show ?case
  proof (elim disjE)
    assume "i = profileToActivity (clock e k) p"
    then have "p \<in> set (p # ps) \<and> i = profileToActivity (clock e k) p" by simp
    then show ?thesis by blast
  qed (auto simp: s)
qed

lemma pushProducts_mem:
  "i \<in> set (fst (pushProducts e ps s)) \<Longrightarrow>
     i \<in> set (fst s) \<or> (\<exists>p k. p \<in> set ps \<and> i = productToActivity (clock e k) p)"
proof (induction ps arbitrary: s)
  case Nil
  then show ?case by simp
next
  case (Cons p ps)
  obtain activities k where s: "s = (activities, k)" by (cases s)
  from Cons.prems
  have "i \<in> set (fst (pushProducts e ps (activities @ [productToActivity (clock e k) p], Suc k)))"
    by (simp add: s)
  from Cons.IH[OF this] have
    "i \<in> set activities \<or> i = productToActivity (clock e k) p \<or>
     (\<exists>p k. p \<in> set ps \<and> i = productToActivity (clock e k) p)"
    by auto
  then show ?case
  proof (elim disjE)
    assume "i = productToActivity (clock e k) p"
    then have "p \<in> set (p # ps) \<and> i = productToActivity (clock e k) p" by simp
    then show ?thesis by blast
  qed (auto simp: s)
qed

lemma postsBlock_cases:
  "postsBlock e st (s, calls) = (s, calls) \<and> returned (loadBlogPosts st) = [] \<or>
   postsBlock e st (s, calls) = (s, calls @ [LoadBlogPosts]) \<and> returned (loadBlogPosts st) = [] \<or>
   postsBlock e st (s, calls) = (pushPosts e (returned (loadBlogPosts st)) s, calls @ [LoadBlogPosts])"
  by (simp add: postsBlock_def returned_def split: option.splits outcome.splits)

lemma profilesBlock_cases:
  "profilesBlock e st (s, calls) = (s, calls) \<and> returned (loadProfiles st) = [] \<or>
   profilesBlock e st (s, calls) = (s, calls @ [LoadProfiles]) \<and> returned (loadProfiles st) = [] \<or>
   profilesBlock e st (s, calls) = (pushProfiles e (returned (loadProfiles st)) s, calls @ [LoadProfiles])"
  by (simp add: profilesBlock_def returned_def split: option.splits outcome.splits)

lemma productsBlock_cases:
  "productsBlock e st (s, calls) = (s, calls) \<and> returned (loadProducts st) = [] \<or>
   productsBlock e st (s, calls) = (s, calls @ [LoadProducts]) \<and> returned (loadProducts st) = [] \<or>
   productsBlock e st (s, calls) = (pushProducts e (returned (loadProducts st)) s, calls @ [LoadProducts])"
  by (simp add: productsBlock_def returned_def split: option.splits outcome.splits)

lemma postsBlock_fst: "fst (postsBlock e st x) = pushPosts e (returned (loadBlogPosts st)) (fst x)"
  using postsBlock_cases[of e st "fst x" "snd x"] by auto

lemma profilesBlock_fst: "fst (profilesBlock e st x) = pushProfiles e (returned (loadProfiles st)) (fst x)"
  using profilesBlock_cases[of e st "fst x" "snd x"] by auto

lemma productsBlock_fst: "fst (productsBlock e st x) = pushProducts e (returned (loadProducts st)) (fst x)"
  using productsBlock_cases[of e st "fst x" "snd x"] by auto

lemma aggregate_eq:
  "fst (loadAllActivity e st) =
     array_sort (compareDates e)
       (fst (pushProducts e (returned (loadProducts st))
              (pushProfiles e (returned (loadProfiles st))
                 (pushPosts e (returned (loadBlogPosts st)) ([], 0)))))"
  by (simp add: loadAllActivity_def getConfig_id Let_def split: prod.splits)
     (metis fst_conv postsBlock_fst profilesBlock_fst productsBlock_fst)

lemma loadAllActivity_subset: "set (fst (loadAllActivity e st)) \<subseteq> normalizedUnion e st"
proof
  fix i
  assume "i \<in> set (fst (loadAllActivity e st))"
  then have "i \<in> set (fst (pushProducts e (returned (loadProducts st))
              (pushProfiles e (returned (loadProfiles st))
                 (pushPosts e (returned (loadBlogPosts st)) ([], 0)))))"
    by (simp add: aggregate_eq set_array_sort)
  from pushProducts_mem[OF this] show "i \<in> normalizedUnion e st"
  proof
    assume "i \<in> set (fst (pushProfiles e (returned (loadProfiles st))
                 (pushPosts e (returned (loadBlogPosts st)) ([], 0))))"
    from pushProfiles_mem[OF this] show ?thesis
    proof
      assume "i \<in> set (fst (pushPosts e (returned (loadBlogPosts st)) ([], 0)))"
      from pushPosts_mem[OF this] show ?thesis by (simp add: normalizedUnion_def)
    next
      assume "\<exists>p k. p \<in> set (returned (loadProfiles st)) \<and> i = profileToActivity (clock e k) p"
      then show ?thesis by (simp add: normalizedUnion_def)
    qed
  next
    assume "\<exists>p k. p \<in> set (returned (loadProducts st)) \<and> i = productToActivity (clock e k) p"
    then show ?thesis by (simp add: normalizedUnion_def)
  qed
qed

section \<open>Query results as functions of the aggregate\<close>

lemma slice0_nat: "slice0 (int n) xs = take n xs"
  by (simp add: slice0_def)

lemma getRecent_fst:
  "fst (getRecentActivityServer e st limit_arg)
     = slice0 (case limit_arg of None \<Rightarrow> 10 | Some n \<Rightarrow> n) (fst (loadAllActivity e st))"
  by (simp add: getRecentActivityServer_def Let_def split: prod.splits)

lemma getByType_fst:
  "fst (getActivityByTypeServer e st ty limit)
     = limited limit (filter (\<lambda>item. type item = ty) (fst (loadAllActivity e st)))"
  by (simp add: getActivityByTypeServer_def Let_def split: prod.splits)

lemma getByCategory_fst:
  "fst (getActivityByCategoryServer e st cat limit)
     = limited limit (filter (\<lambda>item. category item = Some cat \<or> productCategory item = Some cat)
                        (fst (loadAllActivity e st)))"
  by (simp add: getActivityByCategoryServer_def Let_def split: prod.splits)

lemma getByTag_fst:
  "fst (getActivityByTagServer e st tag limit)
     = limited limit (filter (\<lambda>item. case tags item of None \<Rightarrow> False | Some ts \<Rightarrow> List.member ts tag)
                        (fst (loadAllActivity e st)))"
  by (simp add: getActivityByTagServer_def Let_def split: prod.splits)

lemma search_fst:
  "fst (searchActivityServer e st q limit)
     = (if q = [] \<or> trim q = [] then []
        else limited limit (filter (searchFilter (toLowerCase q)) (fst (loadAllActivity e st))))"
  by (simp add: searchActivityServer_def Let_def split: prod.splits)

lemma slice0_Nil: "slice0 n [] = []"
  by (simp add: slice0_def)

lemma limited_Nil: "limited limit [] = []"
  by (cases limit) (simp_all add: slice0_Nil)

lemma dateDescending_aggregate:
  assumes "\<forall>i\<in>set (fst (loadAllActivity e st)). getTime e (date i) \<noteq> None"
  shows "dateDescending e (fst (loadAllActivity e st))"
proof -
  let ?raw = "fst (pushProducts e (returned (loadProducts st))
              (pushProfiles e (returned (loadProfiles st))
                 (pushPosts e (returned (loadBlogPosts st)) ([], 0))))"
  have agg: "fst (loadAllActivity e st) = array_sort (compareDates e) ?raw"
    by (rule aggregate_eq)
  from assms have "\<forall>i\<in>set ?raw. getTime e (date i) \<noteq> None"
    by (simp add: agg set_array_sort)
  then show ?thesis unfolding agg by (rule dateDescending_array_sort)
qed

section \<open>Loaders that throw\<close>

lemma returned_dropFailing: "returned (dropFailing slot) = returned slot"
  by (simp add: returned_def dropFailing_def split: property.splits outcome.splits)

lemma returned_not_succeeds: "\<not> succeeds slot \<Longrightarrow> returned slot = []"
  by (simp add: returned_def succeeds_def split: option.splits outcome.splits)

lemma aggregate_succeedingOnly:
  "fst (loadAllActivity e (succeedingOnly st)) = fst (loadAllActivity e st)"
  by (simp add: aggregate_eq succeedingOnly_def returned_dropFailing)

lemma aggregate_none_succeeds:
  assumes "\<not> succeeds (loadBlogPosts st)" "\<not> succeeds (loadProfiles st)"
    "\<not> succeeds (loadProducts st)"
  shows "fst (loadAllActivity e st) = []"
  using assms by (simp add: aggregate_eq returned_not_succeeds array_sort_def)

lemma pushPosts_eq:
  "pushPosts e posts (activities, k)
     = (activities @ List.map_filter (\<lambda>(i, p). blogPostToActivity (clock e i) p) (enumerate k posts),
        k + length posts)"
proof (induction posts arbitrary: activities k)
  case Nil
  then show ?case by (simp add: map_filter_simps)
next
  case (Cons p posts)
  show ?case
    by (cases "blogPostToActivity (clock e k) p") (simp_all add: Cons.IH map_filter_simps)
qed

lemma pushProfiles_eq:
  "pushProfiles e ps (activities, k)
     = (activities @ map (\<lambda>(i, p). profileToActivity (clock e i) p) (enumerate k ps),
        k + length ps)"
  by (induction ps arbitrary: activities k) simp_all

lemma pushProducts_eq:
  "pushProducts e ps (activities, k)
     = (activities @ map (\<lambda>(i, p). productToActivity (clock e i) p) (enumerate k ps),
        k + length ps)"
  by (induction ps arbitrary: activities k) simp_all

lemma aggregate_derived:
  "fst (loadAllActivity e st) = array_sort (compareDates e) (derivedItems e st)"
  by (simp add: aggregate_eq derivedItems_def pushPosts_eq pushProfiles_eq pushProducts_eq Let_def)

lemma aggregate_mset: "mset (fst (loadAllActivity e st)) = mset (derivedItems e st)"
  by (simp add: aggregate_derived mset_array_sort)

lemma aggregate_sorted:
  assumes "\<forall>i\<in>set (derivedItems e st). getTime e (date i) \<noteq> None"
  shows "fst (loadAllActivity e st)
           = sort_key (\<lambda>i. - the (getTime e (date i))) (derivedItems e st)"
  using assms by (simp add: aggregate_derived array_sort_sort_key)

section \<open>Dated items do not read the clock\<close>

lemma or_str_truthy: "truthy a \<Longrightarrow> or_str a d = the a"
  by (cases a) auto

lemma blogPostToActivity_dated:
  "\<not> visible p \<or> postDated p \<Longrightarrow> blogPostToActivity n1 p = blogPostToActivity n2 p"
  by (auto simp: blogPostToActivity_def visible_def postDated_def or_str_truthy Let_def)

lemma profileToActivity_dated:
  "profileDated p \<Longrightarrow> profileToActivity n1 p = profileToActivity n2 p"
  by (simp add: profileToActivity_def profileDated_def or_str_truthy Let_def)

lemma productToActivity_dated:
  "productDated p \<Longrightarrow> productToActivity n1 p = productToActivity n2 p"
  by (simp add: productToActivity_def productDated_def or_str_truthy Let_def)

lemma pushPosts_dated:
  "list_all (\<lambda>p. \<not> visible p \<or> postDated p) posts \<Longrightarrow> pushPosts e1 posts s = pushPosts e2 posts s"
proof (induction posts arbitrary: s)
  case Nil
  then show ?case by simp
next
  case (Cons p posts)
  obtain activities k where s: "s = (activities, k)" by (cases s)
  from Cons.prems have "blogPostToActivity (clock e1 k) p = blogPostToActivity (clock e2 k) p"
    by (simp add: blogPostToActivity_dated)
  moreover from Cons have "\<And>s'. pushPosts e1 posts s' = pushPosts e2 posts s'" by simp
  ultimately show ?case by (simp add: s split: option.splits)
qed

lemma pushProfiles_dated:
  "list_all profileDated ps \<Longrightarrow> pushProfiles e1 ps s = pushProfiles e2 ps s"
proof (induction ps arbitrary: s)
  case Nil
  then show ?case by simp
next
  case (Cons p ps)
  obtain activities k where s: "s = (activities, k)" by (cases s)
  from Cons.prems have "profileToActivity (clock e1 k) p = profileToActivity (clock e2 k) p"
    by (simp add: profileToActivity_dated)
  moreover from Cons have "\<And>s'. pushProfiles e1 ps s' = pushProfiles e2 ps s'" by simp
  ultimately show ?case by (simp add: s)
qed

lemma pushProducts_dated:
  "list_all productDated ps \<Longrightarrow> pushProducts e1 ps s = pushProducts e2 ps s"
proof (induction ps arbitrary: s)
  case Nil
  then show ?case by simp
next
  case (Cons p ps)
  obtain activities k where s: "s = (activities, k)" by (cases s)
  from Cons.prems have "productToActivity (clock e1 k) p = productToActivity (clock e2 k) p"
    by (simp add: productToActivity_dated)
  moreover from Cons have "\<And>s'. pushProducts e1 ps s' = pushProducts e2 ps s'" by simp
  ultimately show ?case by (simp add: s)
qed

lemma postsBlock_dated:
  "list_all (\<lambda>p. \<not> visible p \<or> postDated p) (returned (loadBlogPosts st)) \<Longrightarrow>
     postsBlock e1 st x = postsBlock e2 st x"
  using pushPosts_dated[of _ e1 _ e2]
  by (auto simp: postsBlock_def returned_def split: option.splits outcome.splits prod.splits)

lemma profilesBlock_dated:
  "list_all profileDated (returned (loadProfiles st)) \<Longrightarrow>
     profilesBlock e1 st x = profilesBlock e2 st x"
  using pushProfiles_dated[of _ e1 _ e2]
  by (auto simp: profilesBlock_def returned_def split: option.splits outcome.splits prod.splits)

lemma productsBlock_dated:
  "list_all productDated (returned (loadProducts st)) \<Longrightarrow>
     productsBlock e1 st x = productsBlock e2 st x"
  using pushProducts_dated[of _ e1 _ e2]
  by (auto simp: productsBlock_def returned_def split: option.splits outcome.splits prod.splits)

lemma compareDates_cong: "getTime e1 = getTime e2 \<Longrightarrow> compareDates e1 = compareDates e2"
  by (intro ext) (simp add: compareDates_def)

lemma loadAllActivity_dated:
  assumes "getTime e1 = getTime e2" "allDated st"
  shows "loadAllActivity e1 st = loadAllActivity e2 st"
proof -
  from assms(2) have
    "\<And>x. postsBlock e1 st x = postsBlock e2 st x"
    "\<And>x. profilesBlock e1 st x = profilesBlock e2 st x"
    "\<And>x. productsBlock e1 st x = productsBlock e2 st x"
    by (simp_all add: allDated_def postsBlock_dated profilesBlock_dated productsBlock_dated)
  then show ?thesis
    by (simp add: loadAllActivity_def getConfig_id compareDates_cong[OF assms(1)])
qed

section \<open>Queries, white space and matching\<close>

lemma trim_Nil_iff: "trim q = [] \<longleftrightarrow> (\<forall>c\<in>set q. isWhitespace c)"
proof
  assume "trim q = []"
  then have "\<forall>c\<in>set (dropWhile isWhitespace q). isWhitespace c"
    by (simp add: trim_def dropWhile_eq_Nil_conv)
  then have "dropWhile isWhitespace q = []"
    using hd_dropWhile[of isWhitespace q] by (cases "dropWhile isWhitespace q") auto
  then show "\<forall>c\<in>set q. isWhitespace c" by (simp add: dropWhile_eq_Nil_conv)
next
  assume "\<forall>c\<in>set q. isWhitespace c"
  then have d: "dropWhile isWhitespace q = []" by simp
  show "trim q = []" unfolding trim_def d by simp
qed

lemma searchFilter_matches: "searchFilter (toLowerCase q) item = searchMatches q item"
  by (auto simp: searchFilter_def searchMatches_def string_includes_def list_ex_iff
           split: option.splits)

lemma count_list_filter:
  "count_list (filter P xs) x = (if P x then count_list xs x else 0)"
  by (induction xs) auto

lemma search_nonblank:
  assumes "\<not> list_all isWhitespace q"
  shows "fst (searchActivityServer e st q limit)
           = limited limit (filter (searchFilter (toLowerCase q)) (fst (loadAllActivity e st)))"
proof -
  from assms have "trim q \<noteq> []" by (simp add: trim_Nil_iff list_all_iff)
  moreover from assms have "q \<noteq> []" by auto
  ultimately show ?thesis by (simp add: search_fst)
qed

lemma search_fst_blank:
  "fst (searchActivityServer e st q limit)
     = (if list_all isWhitespace q then []
        else limited limit (filter (searchFilter (toLowerCase q)) (fst (loadAllActivity e st))))"
proof (cases "list_all isWhitespace q")
  case True
  then have "trim q = []" by (simp add: trim_Nil_iff list_all_iff)
  with True show ?thesis by (simp add: search_fst)
next
  case False
  with search_nonblank[OF False, of e st limit] show ?thesis by simp
qed

lemma lowerChar_whitespace: "isWhitespace c \<Longrightarrow> lowerChar c = c"
  by (auto simp: isWhitespace_def lowerChar_def Let_def)

lemma toLowerCase_whitespace: "\<forall>c\<in>set xs. isWhitespace c \<Longrightarrow> toLowerCase xs = xs"
  by (induction xs) (simp_all add: toLowerCase_def lowerChar_whitespace)

lemma query_split:
  assumes "\<not> list_all isWhitespace q"
  shows "q = leadingWs q @ trim q @ trailingWs q"
proof -
  let ?r = "dropWhile isWhitespace q"
  have q: "q = takeWhile isWhitespace q @ ?r" by simp
  from assms have rne: "?r \<noteq> []" by (simp add: list_all_iff dropWhile_eq_Nil_conv)
  then have hd: "\<not> isWhitespace (hd ?r)" by (rule hd_dropWhile)
  from rne have mem: "hd ?r \<in> set (rev ?r)" by simp
  have "rev q = rev ?r @ rev (takeWhile isWhitespace q)"
    by (metis q rev_append)
  then have "takeWhile isWhitespace (rev q) = takeWhile isWhitespace (rev ?r)"
    using takeWhile_append1[of "hd ?r" "rev ?r" isWhitespace "rev (takeWhile isWhitespace q)"] mem hd
    by simp
  then have t: "trailingWs q = rev (takeWhile isWhitespace (rev ?r))"
    by (simp add: trailingWs_def)
  have "?r = rev (dropWhile isWhitespace (rev ?r)) @ rev (takeWhile isWhitespace (rev ?r))"
    by (metis rev_append rev_rev_ident takeWhile_dropWhile_id)
  then have "?r = trim q @ trailingWs q"
    by (simp add: trim_def t)
  with q show ?thesis by (simp add: leadingWs_def)
qed

lemma toLowerCase_split:
  assumes "\<not> list_all isWhitespace q"
  shows "toLowerCase q = leadingWs q @ toLowerCase (trim q) @ trailingWs q"
proof -
  have l: "toLowerCase (leadingWs q) = leadingWs q"
    by (rule toLowerCase_whitespace) (auto simp: leadingWs_def dest: set_takeWhileD)
  have t: "toLowerCase (trailingWs q) = trailingWs q"
    by (rule toLowerCase_whitespace) (auto simp: trailingWs_def dest: set_takeWhileD)
  have "toLowerCase q = toLowerCase (leadingWs q @ trim q @ trailingWs q)"
    using query_split[OF assms] by simp
  also have "\<dots> = toLowerCase (leadingWs q) @ toLowerCase (trim q) @ toLowerCase (trailingWs q)"
    by (simp add: toLowerCase_def)
  finally show ?thesis by (simp add: l t)
qed

lemma searchFilter_strings:
  "searchFilter term item = (\<exists>s\<in>set (searchedStrings item). sublist term (toLowerCase s))"
  by (auto simp: searchFilter_def searchedStrings_def string_includes_def list_ex_iff
           split: option.splits)

section \<open>The claims\<close>

text \<open>
  C1, as stated, fails. Three posts dated 2025-01-01, \<open>not-a-date\<close> and 2025-03-01: the
  comparator answers \<open>NaN\<close>, read as zero, wherever the unparseable date takes part, so the
  sort leaves the three where they are and the post of January stands before the post of
  March.
\<close>

theorem recent_bad_date_counterexample:
  "\<not> dateDescending exampleEnv (fst (getRecentActivityServer exampleEnv badDateConfig (Some 3)))"
  by (simp add: feed_defs example_defs badDateConfig_def dateDescending_def precedesInTime_def)

text \<open>
  C1, amended. For every configuration of loaders and every natural number \<open>n\<close>,
  \<open>getRecentActivityServer(n)\<close> returns the first \<open>n\<close> items (hence at most \<open>n\<close>) of the
  full aggregate; without an argument it returns at most 10 items; every returned item
  belongs to the normalized union of all configured sources, draft and unpublished posts
  excluded; and, provided the date of every aggregated item parses as a timestamp, the
  aggregate and the returned items are sorted by date descending.
\<close>

theorem recent_activity:
  "fst (getRecentActivityServer e st (Some (int n))) = take n (fst (loadAllActivity e st))
   \<and> length (fst (getRecentActivityServer e st (Some (int n)))) \<le> n
   \<and> length (fst (getRecentActivityServer e st None)) \<le> 10
   \<and> set (fst (getRecentActivityServer e st (Some (int n)))) \<subseteq> normalizedUnion e st
   \<and> ((\<forall>i\<in>set (fst (loadAllActivity e st)). getTime e (date i) \<noteq> None) \<longrightarrow>
        dateDescending e (fst (loadAllActivity e st))
        \<and> dateDescending e (fst (getRecentActivityServer e st (Some (int n)))))"
proof -
  have r: "fst (getRecentActivityServer e st (Some (int n))) = take n (fst (loadAllActivity e st))"
    by (simp add: getRecent_fst slice0_nat)
  have d: "fst (getRecentActivityServer e st None) = take 10 (fst (loadAllActivity e st))"
    using slice0_nat[of 10 "fst (loadAllActivity e st)"] by (simp add: getRecent_fst)
  have sub: "set (take n (fst (loadAllActivity e st))) \<subseteq> normalizedUnion e st"
    using set_take_subset[of n "fst (loadAllActivity e st)"] loadAllActivity_subset[of e st]
    by blast
  show ?thesis
    using sub dateDescending_aggregate[of e st]
    by (auto simp: r d dateDescending_take)
qed

theorem recent_activity_witness:
  "list_all (\<lambda>i. getTime exampleEnv (date i) \<noteq> None) (fst (loadAllActivity exampleEnv exampleConfig))
   \<and> map slug (fst (getRecentActivityServer exampleEnv exampleConfig (Some (int 2)))) = [''alice'', ''widget'']
   \<and> dateDescending exampleEnv (fst (getRecentActivityServer exampleEnv exampleConfig (Some (int 2))))"
proof -
  have h: "list_all (\<lambda>i. getTime exampleEnv (date i) \<noteq> None) (fst (loadAllActivity exampleEnv exampleConfig))"
    by (simp add: feed_defs example_defs)
  then have h': "\<forall>i\<in>set (fst (loadAllActivity exampleEnv exampleConfig)). getTime exampleEnv (date i) \<noteq> None"
    by (simp add: list_all_iff)
  have v: "map slug (fst (getRecentActivityServer exampleEnv exampleConfig (Some (int 2)))) = [''alice'', ''widget'']"
    by (simp add: feed_defs example_defs)
  from recent_activity[of exampleEnv exampleConfig 2] h'
  have "dateDescending exampleEnv (fst (getRecentActivityServer exampleEnv exampleConfig (Some (int 2))))"
    by blast
  with h v show ?thesis by blast
qed

text \<open>
  C2. Post normalization produces nothing exactly when \<open>published\<close> is the boolean
  \<open>false\<close> or \<open>draft\<close> is the boolean \<open>true\<close>. Every other value of the two fields,
  falsy or missing ones included, leaves the post visible.
\<close>

theorem post_excluded_iff:
  "(blogPostToActivity now p = None)
     = (post_published p = JBool False \<or> post_draft p = JBool True)"
  by (simp add: blogPostToActivity_def Let_def)

text \<open>
  The falsy values \<open>0\<close>, \<open>null\<close>, \<open>undefined\<close> and the empty string do not hide a post;
  the two booleans do.
\<close>

theorem post_excluded_iff_witness:
  "blogPostToActivity ''now'' (examplePost\<lparr> post_published := JNum 0, post_draft := JNull \<rparr>) \<noteq> None
   \<and> blogPostToActivity ''now'' (examplePost\<lparr> post_published := JUndefined, post_draft := JStr [] \<rparr>) \<noteq> None
   \<and> blogPostToActivity ''now'' (examplePost\<lparr> post_published := JBool False \<rparr>) = None
   \<and> blogPostToActivity ''now'' (examplePost\<lparr> post_draft := JBool True \<rparr>) = None"
  using post_excluded_iff[of "''now''" "examplePost\<lparr> post_published := JNum 0, post_draft := JNull \<rparr>"]
        post_excluded_iff[of "''now''" "examplePost\<lparr> post_published := JUndefined, post_draft := JStr [] \<rparr>"]
        post_excluded_iff[of "''now''" "examplePost\<lparr> post_published := JBool False \<rparr>"]
        post_excluded_iff[of "''now''" "examplePost\<lparr> post_draft := JBool True \<rparr>"]
  by (simp add: examplePost_def)

text \<open>
  C3. A loader that throws contributes nothing, no error reaches the caller, and the other
  sources are unaffected. The aggregate holds exactly the items derived from the succeeding
  loaders, each as often as it is derived, and where their dates parse it is these items in
  stable date-descending order. Each of the five query operations returns its selection from
  this aggregate, which is also what it returns under the configuration that holds the
  succeeding loaders only. When no slot succeeds (every loader throws or is unset) nothing
  is derived and each query returns the empty sequence.
\<close>

theorem failing_loader_contributes_nothing:
  "mset (fst (loadAllActivity e st)) = mset (derivedItems e st)
   \<and> ((\<forall>i\<in>set (derivedItems e st). getTime e (date i) \<noteq> None) \<longrightarrow>
        fst (loadAllActivity e st)
          = sort_key (\<lambda>i. - the (getTime e (date i))) (derivedItems e st))
   \<and> fst (getRecentActivityServer e st limit)
       = slice0 (case limit of None \<Rightarrow> 10 | Some n \<Rightarrow> n) (fst (loadAllActivity e st))
   \<and> fst (getActivityByTypeServer e st ty limit)
       = limited limit (filter (\<lambda>item. type item = ty) (fst (loadAllActivity e st)))
   \<and> fst (getActivityByCategoryServer e st cat limit)
       = limited limit (filter (\<lambda>item. category item = Some cat \<or> productCategory item = Some cat)
                          (fst (loadAllActivity e st)))
   \<and> fst (getActivityByTagServer e st tag limit)
       = limited limit (filter (\<lambda>item. \<exists>ts. tags item = Some ts \<and> tag \<in> set ts)
                          (fst (loadAllActivity e st)))
   \<and> fst (searchActivityServer e st q limit)
       = (if list_all isWhitespace q then []
          else limited limit (filter (searchFilter (toLowerCase q)) (fst (loadAllActivity e st))))
   \<and> fst (getRecentActivityServer e st limit) = fst (getRecentActivityServer e (succeedingOnly st) limit)
   \<and> fst (getActivityByTypeServer e st ty limit)
       = fst (getActivityByTypeServer e (succeedingOnly st) ty limit)
   \<and> fst (getActivityByCategoryServer e st cat limit)
       = fst (getActivityByCategoryServer e (succeedingOnly st) cat limit)
   \<and> fst (getActivityByTagServer e st tag limit)
       = fst (getActivityByTagServer e (succeedingOnly st) tag limit)
   \<and> fst (searchActivityServer e st q limit)
       = fst (searchActivityServer e (succeedingOnly st) q limit)
   \<and> (\<not> succeeds (loadBlogPosts st) \<and> \<not> succeeds (loadProfiles st)
        \<and> \<not> succeeds (loadProducts st) \<longrightarrow>
          derivedItems e st = []
          \<and> fst (getRecentActivityServer e st limit) = []
          \<and> fst (getActivityByTypeServer e st ty limit) = []
          \<and> fst (getActivityByCategoryServer e st cat limit) = []
          \<and> fst (getActivityByTagServer e st tag limit) = []
          \<and> fst (searchActivityServer e st q limit) = [])"
proof -
  have tagf: "(\<lambda>item. case tags item of None \<Rightarrow> False | Some ts \<Rightarrow> List.member ts tag)
                = (\<lambda>item. \<exists>ts. tags item = Some ts \<and> tag \<in> set ts)"
    by (intro ext) (simp split: option.splits)
  have empty: "\<not> succeeds (loadBlogPosts st) \<and> \<not> succeeds (loadProfiles st)
        \<and> \<not> succeeds (loadProducts st) \<longrightarrow> derivedItems e st = []"
    by (simp add: derivedItems_def returned_not_succeeds map_filter_simps)
  show ?thesis
    using aggregate_sorted[of e st] empty
    by (simp add: aggregate_mset getRecent_fst getByType_fst getByCategory_fst getByTag_fst tagf
          search_fst_blank aggregate_succeedingOnly aggregate_none_succeeds slice0_Nil limited_Nil)
qed

text \<open>
  A throwing profile loader between a working post loader and a working product loader
  yields the product and the post; a throwing post loader beside a working profile loader
  yields exactly the item of the profile; two throwing loaders yield nothing.
\<close>

theorem failing_loader_contributes_nothing_witness:
  "list_all (\<lambda>i. getTime exampleEnv (date i) \<noteq> None) (derivedItems exampleEnv workingPostsConfig)
   \<and> \<not> succeeds (loadProfiles workingPostsConfig)
   \<and> map slug (derivedItems exampleEnv workingPostsConfig) = [''svelte-guide'', ''widget'']
   \<and> map slug (fst (loadAllActivity exampleEnv workingPostsConfig)) = [''widget'', ''svelte-guide'']
   \<and> \<not> succeeds (loadBlogPosts failingPostsConfig)
   \<and> succeeds (loadProfiles failingPostsConfig)
   \<and> fst (getRecentActivityServer exampleEnv failingPostsConfig None)
       = [profileToActivity ''2026-01-01T00:00:00.000Z'' exampleProfile]
   \<and> \<not> succeeds (loadBlogPosts (configure \<lparr> loadBlogPosts = Value (\<lambda>_. Throws),
          loadProfiles = Value (\<lambda>_. Throws), loadProducts = Absent \<rparr> empty_config))
   \<and> fst (getRecentActivityServer exampleEnv (configure \<lparr> loadBlogPosts = Value (\<lambda>_. Throws),
          loadProfiles = Value (\<lambda>_. Throws), loadProducts = Absent \<rparr> empty_config) None) = []"
proof -
  let ?allFail = "configure \<lparr> loadBlogPosts = Value (\<lambda>_. Throws),
          loadProfiles = Value (\<lambda>_. Throws), loadProducts = Absent \<rparr> empty_config"
  note ev = derivedItems_def returned_def workingPostsConfig_def failingPostsConfig_def
    blogPostToActivity_def profileToActivity_def productToActivity_def or_js_def
    map_filter_simps example_defs Let_def
  have w: "list_all (\<lambda>i. getTime exampleEnv (date i) \<noteq> None)
             (derivedItems exampleEnv workingPostsConfig)"
    by (simp add: ev)
  then have w': "\<forall>i\<in>set (derivedItems exampleEnv workingPostsConfig).
                   getTime exampleEnv (date i) \<noteq> None"
    by (simp add: list_all_iff)
  have p: "\<not> succeeds (loadProfiles workingPostsConfig)"
    by (simp add: succeeds_def workingPostsConfig_def)
  have d: "map slug (derivedItems exampleEnv workingPostsConfig) = [''svelte-guide'', ''widget'']"
    by (simp add: ev)
  from failing_loader_contributes_nothing[of exampleEnv workingPostsConfig] w'
  have "fst (loadAllActivity exampleEnv workingPostsConfig)
          = sort_key (\<lambda>i. - the (getTime exampleEnv (date i)))
              (derivedItems exampleEnv workingPostsConfig)"
    by blast
  then have s: "map slug (fst (loadAllActivity exampleEnv workingPostsConfig))
                  = [''widget'', ''svelte-guide'']"
    by (simp add: ev sort_key_def)
  have a: "\<not> succeeds (loadBlogPosts failingPostsConfig)"
    and b: "succeeds (loadProfiles failingPostsConfig)"
    by (simp_all add: succeeds_def failingPostsConfig_def)
  have c: "fst (getRecentActivityServer exampleEnv (succeedingOnly failingPostsConfig) None)
       = [profileToActivity ''2026-01-01T00:00:00.000Z'' exampleProfile]"
    by (simp add: feed_defs example_defs failingPostsConfig_def succeedingOnly_def dropFailing_def)
  from failing_loader_contributes_nothing[of exampleEnv failingPostsConfig None] c
  have f: "fst (getRecentActivityServer exampleEnv failingPostsConfig None)
       = [profileToActivity ''2026-01-01T00:00:00.000Z'' exampleProfile]"
    by metis
  have n: "\<not> succeeds (loadBlogPosts ?allFail) \<and> \<not> succeeds (loadProfiles ?allFail)
       \<and> \<not> succeeds (loadProducts ?allFail)"
    by (simp add: succeeds_def configure_def empty_config_def)
  from failing_loader_contributes_nothing[of exampleEnv ?allFail None] n
  have z: "fst (getRecentActivityServer exampleEnv ?allFail None) = []"
    by blast
  from w p d s a b f n z show ?thesis by blast
qed

text \<open>
  C4. For a query with at least one character that is not white space,
  \<open>searchActivityServer(q)\<close> returns exactly the aggregated items that match the query on
  title, excerpt, author or a tag, case-insensitively. The result is the aggregate filtered:
  an item occurs in it as often as in the aggregate, however many of its fields match, and
  in the order of the aggregate.
\<close>

theorem search_matching:
  assumes "\<not> list_all isWhitespace q"
  shows "fst (searchActivityServer e st q None)
           = filter (searchMatches q) (fst (loadAllActivity e st))
    \<and> (\<forall>item. count_list (fst (searchActivityServer e st q None)) item
          = (if searchMatches q item then count_list (fst (loadAllActivity e st)) item else 0))
    \<and> subseq (fst (searchActivityServer e st q None)) (fst (loadAllActivity e st))"
proof -
  have "searchFilter (toLowerCase q) = searchMatches q"
    by (intro ext) (rule searchFilter_matches)
  with search_nonblank[OF assms, of e st None]
  have r: "fst (searchActivityServer e st q None)
           = filter (searchMatches q) (fst (loadAllActivity e st))"
    by simp
  show ?thesis unfolding r by (simp add: count_list_filter)
qed

theorem search_matching_witness:
  "\<not> list_all isWhitespace ''SVELTE''
   \<and> fst (searchActivityServer exampleEnv exampleConfig ''SVELTE'' None)
       = filter (searchMatches ''SVELTE'') (fst (loadAllActivity exampleEnv exampleConfig))
   \<and> map slug (fst (searchActivityServer exampleEnv exampleConfig ''SVELTE'' None))
       = [''alice'', ''svelte-guide'']
   \<and> \<not> list_all isWhitespace (''caf'' @ [CHR 0xE9])
   \<and> fst (searchActivityServer exampleEnv cafeConfig (''caf'' @ [CHR 0xE9]) None)
       = filter (searchMatches (''caf'' @ [CHR 0xE9])) (fst (loadAllActivity exampleEnv cafeConfig))
   \<and> map slug (fst (searchActivityServer exampleEnv cafeConfig (''caf'' @ [CHR 0xE9]) None))
       = [''cafe'']"
proof -
  have h: "\<not> list_all isWhitespace ''SVELTE''" by (simp add: isWhitespace_def)
  have v: "map slug (fst (searchActivityServer exampleEnv exampleConfig ''SVELTE'' None))
       = [''alice'', ''svelte-guide'']"
    by code_simp
  have h2: "\<not> list_all isWhitespace (''caf'' @ [CHR 0xE9])" by (simp add: isWhitespace_def)
  have v2: "map slug (fst (searchActivityServer exampleEnv cafeConfig (''caf'' @ [CHR 0xE9]) None))
       = [''cafe'']"
    by code_simp
  from search_matching[OF h, of exampleEnv exampleConfig]
       search_matching[OF h2, of exampleEnv cafeConfig] h v h2 v2 show ?thesis by blast
qed

text \<open>
  C5. For a query that is empty or consists only of white space, \<open>searchActivityServer\<close>
  returns the empty sequence whatever the loaders and their content, and invokes no loader:
  no aggregation is performed.
\<close>

theorem search_blank_query:
  "list_all isWhitespace q \<Longrightarrow> searchActivityServer e st q limit = ([], [])"
  by (simp add: searchActivityServer_def trim_Nil_iff list_all_iff)

theorem search_blank_query_witness:
  "list_all isWhitespace ''   '' \<and> list_all isWhitespace [] \<and> list_all isWhitespace [CHR 0xA0, CHR 0x09]
   \<and> searchActivityServer exampleEnv exampleConfig ''   '' None = ([], [])
   \<and> searchActivityServer exampleEnv exampleConfig [] None = ([], [])
   \<and> searchActivityServer exampleEnv exampleConfig [CHR 0xA0, CHR 0x09] None = ([], [])
   \<and> fst (searchActivityServer exampleEnv exampleConfig ''svelte'' None) \<noteq> []"
proof -
  have h1: "list_all isWhitespace ''   ''" by (simp add: isWhitespace_def)
  have h2: "list_all isWhitespace []" by simp
  have h3: "list_all isWhitespace [CHR 0xA0, CHR 0x09]" by (simp add: isWhitespace_def)
  have "fst (searchActivityServer exampleEnv exampleConfig ''svelte'' None) \<noteq> []"
    by code_simp
  with h1 h2 h3 search_blank_query[OF h1, of exampleEnv exampleConfig None]
    search_blank_query[OF h2, of exampleEnv exampleConfig None]
    search_blank_query[OF h3, of exampleEnv exampleConfig None]
  show ?thesis by blast
qed

text \<open>
  C6, as stated, fails: a post populates none of \<open>productCategory\<close>, \<open>profileRole\<close>,
  \<open>license\<close>, and a product with a category and a license populates two.
\<close>

theorem type_specific_fields_counterexample:
  "map_option typeSpecificCount (blogPostToActivity ''now'' examplePost) = Some 0
   \<and> typeSpecificCount (productToActivity ''now'' exampleProduct) = 2"
  by (simp add: typeSpecificCount_def blogPostToActivity_def productToActivity_def
        examplePost_def exampleProduct_def Let_def)

text \<open>
  C6, amended. A populated type-specific field always belongs to the item's type: a post
  populates none of the three, a profile only \<open>profileRole\<close> (the raw \<open>role\<close>, which may be
  absent), a product only \<open>productCategory\<close> and \<open>license\<close> (the raw \<open>category\<close> and
  \<open>license\<close>, each of which may be absent).
\<close>

theorem type_specific_fields_match_type:
  "(blogPostToActivity now p = Some i \<longrightarrow>
      type i = post \<and> productCategory i = None \<and> profileRole i = None \<and> license i = None)
   \<and> (type (profileToActivity now q) = profile
        \<and> profileRole (profileToActivity now q) = profile_role q
        \<and> productCategory (profileToActivity now q) = None
        \<and> license (profileToActivity now q) = None)
   \<and> (type (productToActivity now r) = product
        \<and> productCategory (productToActivity now r) = product_category r
        \<and> license (productToActivity now r) = product_license r
        \<and> profileRole (productToActivity now r) = None)"
  by (auto simp: blogPostToActivity_def profileToActivity_def productToActivity_def Let_def
           split: if_splits)

theorem type_specific_fields_match_type_witness:
  "blogPostToActivity ''now'' examplePost \<noteq> None
   \<and> type (the (blogPostToActivity ''now'' examplePost)) = post
   \<and> typeSpecificCount (the (blogPostToActivity ''now'' examplePost)) = 0
   \<and> profileRole (profileToActivity ''now'' exampleProfile) = Some ''admin''
   \<and> productCategory (productToActivity ''now'' exampleProduct) = Some ''tools''
   \<and> license (productToActivity ''now'' exampleProduct) = Some ''MIT''"
proof -
  obtain i where i: "blogPostToActivity ''now'' examplePost = Some i"
    by (simp add: blogPostToActivity_def examplePost_def)
  from type_specific_fields_match_type[of "''now''" examplePost i exampleProfile exampleProduct] i
  show ?thesis
    by (simp add: typeSpecificCount_def exampleProfile_def exampleProduct_def)
qed

text \<open>
  C7, as stated, fails: a product whose raw excerpt is present but empty, with a
  description, gets the description as its excerpt, not the empty string.
\<close>

theorem excerpt_empty_counterexample:
  "excerpt (productToActivity ''now'' emptyExcerptProduct)
     \<noteq> specExcerpt (product_excerpt emptyExcerptProduct) (product_description emptyExcerptProduct)"
  by (simp add: productToActivity_def emptyExcerptProduct_def exampleProduct_def specExcerpt_def
        or_js_def Let_def)

text \<open>
  C7, amended. For a post that is not excluded and for a product, the normalized excerpt
  is the raw excerpt when that is present and not empty, otherwise the description when that
  is present and not empty, otherwise the empty string.
\<close>

theorem excerpt_fallback:
  "(blogPostToActivity now p = Some i \<longrightarrow>
      excerpt i = (if truthy (post_excerpt p) then the (post_excerpt p)
                   else if truthy (post_description p) then the (post_description p)
                   else []))
   \<and> excerpt (productToActivity now r)
       = (if truthy (product_excerpt r) then the (product_excerpt r)
          else if truthy (product_description r) then the (product_description r)
          else [])"
proof -
  have or: "\<And>a b. or_str (or_js a b) [] = (if truthy a then the a else if truthy b then the b else [])"
    subgoal for a b by (cases a; cases b) (auto simp: or_js_def)
    done
  show ?thesis
    by (auto simp: or blogPostToActivity_def productToActivity_def Let_def split: if_splits)
qed

theorem excerpt_fallback_witness:
  "blogPostToActivity ''now'' examplePost \<noteq> None
   \<and> excerpt (the (blogPostToActivity ''now'' examplePost)) = ''A test excerpt''
   \<and> excerpt (productToActivity ''now'' exampleProduct) = ''A useful widget''
   \<and> excerpt (productToActivity ''now'' emptyExcerptProduct) = ''A useful widget''"
proof -
  obtain i where i: "blogPostToActivity ''now'' examplePost = Some i"
    by (simp add: blogPostToActivity_def examplePost_def)
  from excerpt_fallback[of "''now''" examplePost i exampleProduct]
       excerpt_fallback[of "''now''" examplePost i emptyExcerptProduct] i
  show ?thesis
    by (simp add: examplePost_def exampleProduct_def emptyExcerptProduct_def)
qed

text \<open>
  C8, as stated, fails: a post without a date takes the reading of the clock, so the same
  query on the same configuration returns a different item a day later.
\<close>

theorem idempotence_undated_counterexample:
  "fst (getRecentActivityServer exampleEnv undatedConfig None)
     \<noteq> fst (getRecentActivityServer laterEnv undatedConfig None)"
  by (simp add: feed_defs example_defs undatedConfig_def)

text \<open>
  C8, amended. For a fixed configuration whose loader outputs are unchanged and whose
  items all carry a date, each of the five query operations, called twice with the same
  arguments, yields the same result, whatever the clock shows at the two calls.
\<close>

theorem idempotence_dated:
  assumes "getTime e1 = getTime e2" and "allDated st"
  shows "getRecentActivityServer e1 st limit = getRecentActivityServer e2 st limit
    \<and> getActivityByTypeServer e1 st ty limit = getActivityByTypeServer e2 st ty limit
    \<and> getActivityByCategoryServer e1 st cat limit = getActivityByCategoryServer e2 st cat limit
    \<and> getActivityByTagServer e1 st tag limit = getActivityByTagServer e2 st tag limit
    \<and> searchActivityServer e1 st q limit = searchActivityServer e2 st q limit"
  by (simp add: getRecentActivityServer_def getActivityByTypeServer_def
        getActivityByCategoryServer_def getActivityByTagServer_def searchActivityServer_def
        loadAllActivity_dated[OF assms])

theorem idempotence_dated_witness:
  "getTime exampleEnv = getTime laterEnv \<and> allDated exampleConfig
   \<and> clock exampleEnv 0 \<noteq> clock laterEnv 0
   \<and> getRecentActivityServer exampleEnv exampleConfig None
       = getRecentActivityServer laterEnv exampleConfig None
   \<and> searchActivityServer exampleEnv exampleConfig ''svelte'' None
       = searchActivityServer laterEnv exampleConfig ''svelte'' None"
proof -
  have a: "getTime exampleEnv = getTime laterEnv"
    by (simp add: exampleEnv_def laterEnv_def)
  have b: "allDated exampleConfig"
    by (simp add: allDated_def returned_def postDated_def profileDated_def productDated_def
          or_js_def example_defs)
  have c: "clock exampleEnv 0 \<noteq> clock laterEnv 0"
    by (simp add: exampleEnv_def laterEnv_def)
  from idempotence_dated[OF a b, of None _ _ _ "''svelte''"] a b c show ?thesis by blast
qed

text \<open>
  C9. When \<open>configure\<close> receives a partial configuration in which a loader key is present
  and holds \<open>undefined\<close>, the merge overwrites that slot, and a following \<open>getConfig\<close>
  reports the loader as unset, whatever the slot held before. A key that is omitted leaves
  the slot as it was: the two are not treated alike.
\<close>

theorem configure_undefined_clears:
  "(loadBlogPosts partial = Undefined \<longrightarrow>
      prop_get (loadBlogPosts (getConfig (configure partial st))) = None)
   \<and> (loadProfiles partial = Undefined \<longrightarrow>
      prop_get (loadProfiles (getConfig (configure partial st))) = None)
   \<and> (loadProducts partial = Undefined \<longrightarrow>
      prop_get (loadProducts (getConfig (configure partial st))) = None)
   \<and> (loadBlogPosts partial = Absent \<longrightarrow>
      loadBlogPosts (getConfig (configure partial st)) = loadBlogPosts (getConfig st))
   \<and> (loadProfiles partial = Absent \<longrightarrow>
      loadProfiles (getConfig (configure partial st)) = loadProfiles (getConfig st))
   \<and> (loadProducts partial = Absent \<longrightarrow>
      loadProducts (getConfig (configure partial st)) = loadProducts (getConfig st))"
  by (simp add: configure_def getConfig_def)

theorem configure_undefined_clears_witness:
  "prop_get (loadBlogPosts (getConfig (configure
      \<lparr> loadBlogPosts = Undefined, loadProfiles = Absent, loadProducts = Absent \<rparr>
      exampleConfig))) = None
   \<and> prop_get (loadProfiles (getConfig (configure
      \<lparr> loadBlogPosts = Undefined, loadProfiles = Absent, loadProducts = Absent \<rparr>
      exampleConfig))) \<noteq> None
   \<and> map slug (fst (getRecentActivityServer exampleEnv (configure
      \<lparr> loadBlogPosts = Undefined, loadProfiles = Absent, loadProducts = Absent \<rparr>
      exampleConfig) None)) = [''alice'', ''widget'']"
  using configure_undefined_clears
    [of "\<lparr> loadBlogPosts = Undefined, loadProfiles = Absent, loadProducts = Absent \<rparr>"
        exampleConfig]
  by (simp add: feed_defs example_defs configure_def)

text \<open>
  C10. For a query with at least one character that is not white space, the search term is
  the query lowercased as it is, not trimmed: it is the leading white space of the query,
  the lowercased trimmed query and the trailing white space, and an item is returned exactly
  when this whole string occurs in its lowercased title, excerpt, author or one of its tags.
\<close>

theorem search_untrimmed:
  assumes "\<not> list_all isWhitespace q"
  shows "toLowerCase q = leadingWs q @ toLowerCase (trim q) @ trailingWs q
    \<and> fst (searchActivityServer e st q limit)
        = limited limit
            (filter (\<lambda>item. \<exists>s\<in>set (searchedStrings item).
                        sublist (leadingWs q @ toLowerCase (trim q) @ trailingWs q) (toLowerCase s))
                    (fst (loadAllActivity e st)))"
proof -
  have s: "toLowerCase q = leadingWs q @ toLowerCase (trim q) @ trailingWs q"
    by (rule toLowerCase_split[OF assms])
  have "searchFilter (toLowerCase q)
          = (\<lambda>item. \<exists>s\<in>set (searchedStrings item). sublist (toLowerCase q) (toLowerCase s))"
    by (intro ext) (rule searchFilter_strings)
  with search_nonblank[OF assms, of e st limit] s show ?thesis by simp
qed

text \<open>
  With a trailing space the query \<open>Svelte\<close> still finds the post titled
  \<open>Svelte Guide\<close>, but no longer the profile whose bio ends in \<open>Svelte\<close>; with a
  leading no-break space it finds nothing.
\<close>

theorem search_untrimmed_witness:
  "\<not> list_all isWhitespace ''Svelte ''
   \<and> toLowerCase ''Svelte '' = leadingWs ''Svelte '' @ toLowerCase (trim ''Svelte '') @ trailingWs ''Svelte ''
   \<and> leadingWs ''Svelte '' = [] \<and> trim ''Svelte '' = ''Svelte'' \<and> trailingWs ''Svelte '' = '' ''
   \<and> map slug (fst (searchActivityServer exampleEnv exampleConfig ''Svelte '' None)) = [''svelte-guide'']
   \<and> map slug (fst (searchActivityServer exampleEnv exampleConfig ''Svelte'' None))
       = [''alice'', ''svelte-guide'']
   \<and> \<not> list_all isWhitespace (CHR 0xA0 # ''Svelte'')
   \<and> leadingWs (CHR 0xA0 # ''Svelte'') = [CHR 0xA0] \<and> trim (CHR 0xA0 # ''Svelte'') = ''Svelte''
   \<and> fst (searchActivityServer exampleEnv exampleConfig (CHR 0xA0 # ''Svelte'') None) = []"
proof -
  have h: "\<not> list_all isWhitespace ''Svelte ''" by (simp add: isWhitespace_def)
  have a: "leadingWs ''Svelte '' = []" by code_simp
  have b: "trim ''Svelte '' = ''Svelte''" by code_simp
  have c: "trailingWs ''Svelte '' = '' ''" by code_simp
  have d: "map slug (fst (searchActivityServer exampleEnv exampleConfig ''Svelte '' None)) = [''svelte-guide'']"
    by code_simp
  have e: "map slug (fst (searchActivityServer exampleEnv exampleConfig ''Svelte'' None))
       = [''alice'', ''svelte-guide'']"
    by code_simp
  have h2: "\<not> list_all isWhitespace (CHR 0xA0 # ''Svelte'')" by (simp add: isWhitespace_def)
  have f: "leadingWs (CHR 0xA0 # ''Svelte'') = [CHR 0xA0]" by code_simp
  have g: "trim (CHR 0xA0 # ''Svelte'') = ''Svelte''" by code_simp
  have i: "fst (searchActivityServer exampleEnv exampleConfig (CHR 0xA0 # ''Svelte'') None) = []"
    by code_simp
  from search_untrimmed[OF h, of exampleEnv exampleConfig None] h a b c d e h2 f g i
  show ?thesis by blast
qed

end
